theory Spec2Isabelle
  imports Complex_Main "HOL-Library.AList"
begin

section \<open>NOAA GHCND import: the embedded program\<close>

text \<open>
  A shallow embedding of \<^verbatim>\<open>scripts/import_noaa.py\<close>. Python strings are HOL strings
  whose characters stand for the code points 0 to 255 (the NOAA files are ASCII), Python
  integers are \<^typ>\<open>int\<close>, an exception is the left summand of a sum type, and the
  insertion-ordered dictionaries of the script are association lists that are updated in
  place and extended at the end.
\<close>

datatype error = ValueError | CardinalityViolation

subsection \<open>String primitives of Python\<close>

text \<open>\<^verbatim>\<open>s[a:b]\<close> for \<open>0 \<le> a \<le> b\<close>; a slice reaching beyond the end is cut short.\<close>

definition slice :: "nat \<Rightarrow> nat \<Rightarrow> string \<Rightarrow> string" where
  "slice a b s = take (b - a) (drop a s)"

text \<open>The characters \<^verbatim>\<open>str.strip()\<close> removes: those with \<^verbatim>\<open>isspace()\<close> true below 256.\<close>

definition py_isspace :: "char \<Rightarrow> bool" where
  "py_isspace c \<longleftrightarrow> c \<in> set [CHR 0x09, CHR 0x0A, CHR 0x0B, CHR 0x0C, CHR 0x0D,
     CHR 0x1C, CHR 0x1D, CHR 0x1E, CHR 0x1F, CHR 0x20, CHR 0x85, CHR 0xA0]"

definition strip :: "string \<Rightarrow> string" where
  "strip s = rev (dropWhile py_isspace (rev (dropWhile py_isspace s)))"

text \<open>\<^verbatim>\<open>s.split('\n')\<close>: the pieces between line feeds, at least one piece.\<close>

fun split_from :: "string \<Rightarrow> string \<Rightarrow> string list" where
  "split_from piece [] = [rev piece]"
| "split_from piece (c # cs) =
     (if c = CHR 0x0A then rev piece # split_from [] cs else split_from (c # piece) cs)"

definition split_newline :: "string \<Rightarrow> string list" where
  "split_newline s = split_from [] s"

definition startswith :: "string \<Rightarrow> string \<Rightarrow> bool" where
  "startswith s p \<longleftrightarrow> take (length p) s = p"

text \<open>\<^verbatim>\<open>str.lower()\<close> on the letters A to Z; the script applies it to element codes only.\<close>

definition lower_char :: "char \<Rightarrow> char" where
  "lower_char c = (case map_of (zip ''ABCDEFGHIJKLMNOPQRSTUVWXYZ'' ''abcdefghijklmnopqrstuvwxyz'') c of
     None \<Rightarrow> c | Some l \<Rightarrow> l)"

definition lower :: "string \<Rightarrow> string" where
  "lower s = map lower_char s"

subsection \<open>\<^verbatim>\<open>int(str)\<close>\<close>

text \<open>
  \<^verbatim>\<open>int\<close> skips white space at both ends (a smaller set than \<^verbatim>\<open>strip\<close>: the
  separators 0x1C to 0x1F are not skipped), reads one optional sign and then decimal digits,
  where single underscores may stand between digits. Anything else raises ValueError.
\<close>

definition int_space :: "char \<Rightarrow> bool" where
  "int_space c \<longleftrightarrow> c \<in> set [CHR 0x09, CHR 0x0A, CHR 0x0B, CHR 0x0C, CHR 0x0D, CHR 0x20,
     CHR 0x85, CHR 0xA0]"

definition is_digit :: "char \<Rightarrow> bool" where
  "is_digit c \<longleftrightarrow> c \<in> set ''0123456789''"

definition digit_value :: "char \<Rightarrow> int" where
  "digit_value c = int (of_char c) - 48"

fun well_grouped :: "string \<Rightarrow> bool" where
  "well_grouped [] = False"
| "well_grouped [c] = is_digit c"
| "well_grouped (c # d # r) =
     (is_digit c \<and> (if d = CHR ''_'' then well_grouped r else well_grouped (d # r)))"

definition digits_value :: "string \<Rightarrow> int" where
  "digits_value s = fold (\<lambda>c a. 10 * a + digit_value c) s 0"

definition py_int :: "string \<Rightarrow> error + int" where
  "py_int s =
     (let t = dropWhile int_space s;
          negative = (t \<noteq> [] \<and> hd t = CHR ''-'');
          u = (if t \<noteq> [] \<and> (hd t = CHR ''-'' \<or> hd t = CHR ''+'') then tl t else t);
          body = rev (dropWhile int_space (rev u))
      in if well_grouped body
         then Inr ((if negative then - 1 else 1) * digits_value (filter (\<lambda>c. c \<noteq> CHR ''_'') body))
         else Inl ValueError)"

subsection \<open>\<^verbatim>\<open>datetime.date\<close>\<close>

datatype date = Date (date_year: int) (date_month: int) (date_day: int)

definition is_leap :: "int \<Rightarrow> bool" where
  "is_leap year \<longleftrightarrow> year mod 4 = 0 \<and> (year mod 100 \<noteq> 0 \<or> year mod 400 = 0)"

definition days_in_month :: "int \<Rightarrow> int \<Rightarrow> int" where
  "days_in_month year month =
     (if month = 2 then (if is_leap year then 29 else 28)
      else if month = 4 \<or> month = 6 \<or> month = 9 \<or> month = 11 then 30 else 31)"

text \<open>The constructor \<^verbatim>\<open>date(year, month, day)\<close>, which raises ValueError out of range.\<close>

definition py_date :: "int \<Rightarrow> int \<Rightarrow> int \<Rightarrow> error + date" where
  "py_date year month day =
     (if 1 \<le> year \<and> year \<le> 9999 \<and> 1 \<le> month \<and> month \<le> 12
         \<and> 1 \<le> day \<and> day \<le> days_in_month year month
      then Inr (Date year month day) else Inl ValueError)"

subsection \<open>\<^verbatim>\<open>parse_dly_file\<close>\<close>

text \<open>
  \<^verbatim>\<open>int(x)\<close> of a float \<open>x\<close> drops the fraction, towards zero. The float expression
  \<^verbatim>\<open>value * 9 / 5 + 320\<close> is taken over the rationals: a value field has five
  characters, so \<open>|value| < 100000\<close>, the exact result is an integer or lies at least 1/5
  away from every integer, and the two roundings of the double computation (each below
  \<open>2\<^sup>-\<^sup>3\<^sup>5\<close>) cannot move it across an integer.
\<close>

definition py_int_of_float :: "rat \<Rightarrow> int" where
  "py_int_of_float x = (if 0 \<le> x then \<lfloor>x\<rfloor> else \<lceil>x\<rceil>)"

text \<open>Lines 149 to 151: the value that is stored for an element.\<close>

definition convert_value :: "string \<Rightarrow> int \<Rightarrow> int" where
  "convert_value element v =
     (if element \<in> set [''TMAX'', ''TMIN'']
      then py_int_of_float (of_int v * 9 / 5 + 320) else v)"

type_synonym day_data = "(string \<times> int) list"
type_synonym records = "(date \<times> day_data) list"

text \<open>
  Lines 146 to 153: \<^verbatim>\<open>records[d]\<close> is created empty when the date is new (at the end of
  the dictionary), then \<^verbatim>\<open>records[d][element.lower()]\<close> is assigned.
\<close>

definition store_value :: "date \<Rightarrow> string \<Rightarrow> int \<Rightarrow> records \<Rightarrow> records" where
  "store_value d element v records =
     (let data = (case map_of records d of None \<Rightarrow> [] | Some data \<Rightarrow> data)
      in AList.update d (AList.update (lower element) (convert_value element v) data) records)"

text \<open>Lines 129 and 130: the trimmed value field of a day slot.\<close>

definition value_str :: "string \<Rightarrow> int \<Rightarrow> string" where
  "value_str line day =
     (let start = nat (21 + (day - 1) * 8) in strip (slice start (start + 5) line))"

text \<open>Lines 129 to 153: the body of the loop over the days, on the dictionary \<open>records\<close>.\<close>

definition parse_day :: "int \<Rightarrow> int \<Rightarrow> string \<Rightarrow> string \<Rightarrow> int \<Rightarrow> records \<Rightarrow> records" where
  "parse_day year month element line day records =
     (if value_str line day = ''-9999'' \<or> value_str line day = [] then records
      else case py_int (value_str line day) of
        Inl _ \<Rightarrow> records
      | Inr v \<Rightarrow>
          (case py_date year month day of
             Inl _ \<Rightarrow> records
           | Inr d \<Rightarrow> store_value d element v records))"

definition elements :: "string list" where
  "elements = [''TMAX'', ''TMIN'', ''PRCP'', ''SNOW'']"

text \<open>
  Lines 114 to 153: one line of the file. The year and the month are read with \<^verbatim>\<open>int\<close>
  outside any \<^verbatim>\<open>try\<close>, so a ValueError there leaves \<^verbatim>\<open>parse_dly_file\<close>.
\<close>

definition parse_line :: "int \<Rightarrow> string \<Rightarrow> records \<Rightarrow> error + records" where
  "parse_line MIN_YEAR line records =
     (if length line < 269 then Inr records
      else case py_int (slice 11 15 line) of
        Inl e \<Rightarrow> Inl e
      | Inr year \<Rightarrow>
          (if year < MIN_YEAR then Inr records
           else (case py_int (slice 15 17 line) of
              Inl e \<Rightarrow> Inl e
            | Inr month \<Rightarrow>
                (if slice 17 21 line \<notin> set elements then Inr records
                 else Inr (fold (parse_day year month (slice 17 21 line) line) (upto 1 31) records)))))"

fun parse_lines :: "int \<Rightarrow> string list \<Rightarrow> records \<Rightarrow> error + records" where
  "parse_lines MIN_YEAR [] records = Inr records"
| "parse_lines MIN_YEAR (line # rest) records =
     (case parse_line MIN_YEAR line records of
        Inl e \<Rightarrow> Inl e
      | Inr records' \<Rightarrow> parse_lines MIN_YEAR rest records')"

record weather_row =
  row_station_id :: string
  row_date :: date
  row_month :: int
  row_day :: int
  row_tmax :: "int option"
  row_tmin :: "int option"
  row_prcp :: "int option"
  row_snow :: "int option"

text \<open>Lines 156 to 168: the rows of the dates that have a temperature.\<close>

definition has_temperature :: "day_data \<Rightarrow> bool" where
  "has_temperature data \<longleftrightarrow> map_of data ''tmax'' \<noteq> None \<or> map_of data ''tmin'' \<noteq> None"

definition make_row :: "string \<Rightarrow> date \<times> day_data \<Rightarrow> weather_row" where
  "make_row station_id item =
     \<lparr>row_station_id = station_id, row_date = fst item,
      row_month = date_month (fst item), row_day = date_day (fst item),
      row_tmax = map_of (snd item) ''tmax'', row_tmin = map_of (snd item) ''tmin'',
      row_prcp = map_of (snd item) ''prcp'', row_snow = map_of (snd item) ''snow''\<rparr>"

definition to_rows :: "string \<Rightarrow> records \<Rightarrow> weather_row list" where
  "to_rows station_id records =
     map (make_row station_id) (filter (\<lambda>item. has_temperature (snd item)) records)"

text \<open>Lines 111 to 113: the grouping loop over the lines, from the empty dictionary.\<close>

definition group_records :: "int \<Rightarrow> string \<Rightarrow> error + records" where
  "group_records MIN_YEAR file_content = parse_lines MIN_YEAR (split_newline file_content) []"

definition parse_dly_file :: "int \<Rightarrow> string \<Rightarrow> string \<Rightarrow> error + weather_row list" where
  "parse_dly_file MIN_YEAR file_content station_id =
     (case group_records MIN_YEAR file_content of
        Inl e \<Rightarrow> Inl e
      | Inr records \<Rightarrow> Inr (to_rows station_id records))"

subsection \<open>\<^verbatim>\<open>download_stations\<close>: decoding the station list\<close>

text \<open>
  A station is the tuple (id, name, latitude, longitude, elevation). \<^verbatim>\<open>float(str)\<close> is a
  parameter \<open>py_float\<close> of the model: a function of the string alone, which fails with
  ValueError on what is not a number; the type \<open>'f\<close> of its results is left open.
\<close>

type_synonym 'f station = "string \<times> string \<times> 'f \<times> 'f \<times> 'f option"

text \<open>Lines 66 to 77: the body of the loop, on the list \<open>stations\<close>.\<close>

definition decode_station_line ::
    "(string \<Rightarrow> error + 'f) \<Rightarrow> string \<Rightarrow> 'f station list \<Rightarrow> error + 'f station list" where
  "decode_station_line py_float line stations =
     (let station_id = strip (slice 0 11 line)
      in if \<not> startswith station_id ''US'' then Inr stations
         else case py_float (strip (slice 12 20 line)) of
           Inl e \<Rightarrow> Inl e
         | Inr lat \<Rightarrow>
             (case py_float (strip (slice 21 30 line)) of
                Inl e \<Rightarrow> Inl e
              | Inr lon \<Rightarrow>
                  (case (if strip (slice 31 37 line) \<noteq> []
                         then map_sum id Some (py_float (strip (slice 31 37 line)))
                         else Inr None) of
                     Inl e \<Rightarrow> Inl e
                   | Inr elev \<Rightarrow>
                       Inr (stations @ [(station_id, strip (slice 41 71 line), lat, lon, elev)]))))"

text \<open>Lines 62 to 77: the loop over the lines of the station list.\<close>

fun decode_stations ::
    "(string \<Rightarrow> error + 'f) \<Rightarrow> string list \<Rightarrow> 'f station list \<Rightarrow> error + 'f station list" where
  "decode_stations py_float [] stations = Inr stations"
| "decode_stations py_float (line # rest) stations =
     (case decode_station_line py_float line stations of
        Inl e \<Rightarrow> Inl e
      | Inr stations' \<Rightarrow> decode_stations py_float rest stations')"

subsection \<open>\<^verbatim>\<open>insert_batch\<close>: the upsert into \<^verbatim>\<open>weather_daily\<close>\<close>

text \<open>
  Modelled from the spec: the table \<^verbatim>\<open>weather_daily\<close>, whose declaration
  (\<^verbatim>\<open>schema.sql\<close>) is not among the sources. Its rows hold the eight columns of the
  INSERT statement, integers of any size, and (station_id, date) is its unique key, the
  conflict target of the statement. The table is a list of rows; the connection holds the
  table and the number of commits.
\<close>

record conn =
  weather_daily :: "weather_row list"
  commits :: nat

definition row_key :: "weather_row \<Rightarrow> string \<times> date" where
  "row_key r = (row_station_id r, row_date r)"

text \<open>Lines 241 to 245: DO UPDATE SET on the existing row \<open>x\<close>, with EXCLUDED the row \<open>r\<close>.\<close>

definition do_update :: "weather_row \<Rightarrow> weather_row \<Rightarrow> weather_row" where
  "do_update r x =
     x\<lparr>row_tmax := row_tmax r, row_tmin := row_tmin r, row_prcp := row_prcp r, row_snow := row_snow r\<rparr>"

text \<open>One proposed row: inserted, or on a conflict of keys the existing row is updated.\<close>

fun upsert_row :: "weather_row \<Rightarrow> weather_row list \<Rightarrow> weather_row list" where
  "upsert_row r [] = [r]"
| "upsert_row r (x # xs) =
     (if row_key x = row_key r then do_update r x # xs else x # upsert_row r xs)"

text \<open>
  \<^verbatim>\<open>execute_values\<close> of psycopg2 sends the rows in pages of 100, one INSERT statement for
  each page. PostgreSQL refuses a statement with ON CONFLICT DO UPDATE that proposes the
  same key twice (a cardinality violation); the exception leaves \<^verbatim>\<open>insert_batch\<close> before
  the commit.
\<close>

fun paginate :: "nat \<Rightarrow> 'a list \<Rightarrow> 'a list list" where
  "paginate page_size xs =
     (if xs = [] \<or> page_size = 0 then []
      else take page_size xs # paginate page_size (drop page_size xs))"

declare paginate.simps [simp del]

fun execute_values :: "weather_row list list \<Rightarrow> weather_row list \<Rightarrow> error + weather_row list" where
  "execute_values [] table = Inr table"
| "execute_values (page # rest) table =
     (if distinct (map row_key page) then execute_values rest (fold upsert_row page table)
      else Inl CardinalityViolation)"

definition insert_batch :: "conn \<Rightarrow> weather_row list \<Rightarrow> error + conn" where
  "insert_batch c records =
     (case execute_values (paginate 100 records) (weather_daily c) of
        Inl e \<Rightarrow> Inl e
      | Inr table \<Rightarrow> Inr \<lparr>weather_daily = table, commits = commits c + 1\<rparr>)"

subsection \<open>\<^verbatim>\<open>import_weather_data\<close>: buffering and flushing\<close>

text \<open>
  The loop of lines 191 to 219 is modelled from line 210 on: its input is the list of the
  values of \<open>records\<close>, the rows that \<^verbatim>\<open>parse_dly_file\<close> returned for each archive member
  that passed the checks of the name, in the order of the archive. (A member on which
  \<^verbatim>\<open>parse_dly_file\<close> raises ends the run before line 210.)
\<close>

record import_state =
  st_conn :: conn
  batch :: "weather_row list"
  total_records :: nat
  stations_processed :: nat

text \<open>Lines 210 to 219.\<close>

definition buffer_records :: "nat \<Rightarrow> weather_row list \<Rightarrow> import_state \<Rightarrow> error + import_state" where
  "buffer_records BATCH_SIZE records st =
     (if records \<noteq> [] then
        (if length (batch st @ records) \<ge> BATCH_SIZE then
           (case insert_batch (st_conn st) (batch st @ records) of
              Inl e \<Rightarrow> Inl e
            | Inr c \<Rightarrow>
                Inr \<lparr>st_conn = c, batch = [],
                     total_records = total_records st + length (batch st @ records),
                     stations_processed = stations_processed st + 1\<rparr>)
         else Inr (st\<lparr>batch := batch st @ records,
                       stations_processed := stations_processed st + 1\<rparr>))
      else Inr st)"

fun import_loop :: "nat \<Rightarrow> weather_row list list \<Rightarrow> import_state \<Rightarrow> error + import_state" where
  "import_loop BATCH_SIZE [] st = Inr st"
| "import_loop BATCH_SIZE (records # rest) st =
     (case buffer_records BATCH_SIZE records st of
        Inl e \<Rightarrow> Inl e
      | Inr st' \<Rightarrow> import_loop BATCH_SIZE rest st')"

text \<open>Lines 222 to 224: the remaining records.\<close>

definition insert_remaining :: "import_state \<Rightarrow> error + import_state" where
  "insert_remaining st =
     (if batch st \<noteq> [] then
        (case insert_batch (st_conn st) (batch st) of
           Inl e \<Rightarrow> Inl e
         | Inr c \<Rightarrow> Inr (st\<lparr>st_conn := c, total_records := total_records st + length (batch st)\<rparr>))
      else Inr st)"

definition import_weather_data :: "nat \<Rightarrow> conn \<Rightarrow> weather_row list list \<Rightarrow> error + import_state" where
  "import_weather_data BATCH_SIZE c members =
     (case import_loop BATCH_SIZE members
             \<lparr>st_conn = c, batch = [], total_records = 0, stations_processed = 0\<rparr> of
        Inl e \<Rightarrow> Inl e
      | Inr st \<Rightarrow> insert_remaining st)"

subsection \<open>Example inputs\<close>

text \<open>
  Lines of a station file as the format lays them out: 21 characters of station, year, month
  and element, the slot of day 1, and 30 blank slots.
\<close>

definition example_line :: "string \<Rightarrow> string" where
  "example_line header = header @ replicate 240 CHR '' ''"

definition tmax_header :: string where
  "tmax_header = ''USW00001234'' @ ''2020'' @ ''03'' @ ''TMAX'' @ ''+0150  S''"

definition prcp_header :: string where
  "prcp_header = ''USW00001234'' @ ''2020'' @ ''03'' @ ''PRCP'' @ ''00010  S''"

definition snow_header :: string where
  "snow_header = ''USW00001234'' @ ''2020'' @ ''04'' @ ''SNOW'' @ ''   25  S''"

definition tmax_again_header :: string where
  "tmax_again_header = ''USW00001234'' @ ''2020'' @ ''03'' @ ''TMAX'' @ '' 0200  S''"

definition tmin_header :: string where
  "tmin_header = ''USW00001234'' @ ''2020'' @ ''03'' @ ''TMIN'' @ ''   -1  S''"

definition tavg_header :: string where
  "tavg_header = ''USW00001234'' @ ''2020'' @ ''03'' @ ''TAVG'' @ ''  100  S''"

definition bad_month_header :: string where
  "bad_month_header = ''USW00001234'' @ ''2020'' @ ''XX'' @ ''TAVG'' @ ''  100  S''"

text \<open>
  A line for February 2020: the slots of the days 1 to 28 hold -9999, those of the days 29
  and 30 hold values, and the slot of day 31 is blank.
\<close>

definition example_february_line :: string where
  "example_february_line =
     ''USW00001234'' @ ''2020'' @ ''02'' @ ''TMAX'' @ concat (replicate 28 ''-9999   '')
       @ ''  100  S'' @ ''  110  S'' @ ''        ''"

text \<open>
  A file of four lines: the maximum temperature and the precipitation of 1 March 2020, the
  snowfall of 1 April 2020, and the maximum temperature of 1 March 2020 once more.
\<close>

definition example_file :: string where
  "example_file =
     example_line tmax_header @ CHR 0x0A # example_line prcp_header @ CHR 0x0A #
     example_line snow_header @ CHR 0x0A # example_line tmax_again_header"

text \<open>The same file with a line feed after its last line, as station files have.\<close>

definition terminated_file :: string where
  "terminated_file = example_file @ [CHR 0x0A]"

definition example_row :: weather_row where
  "example_row =
     \<lparr>row_station_id = ''USW00001234'', row_date = Date 2020 3 1, row_month = 3, row_day = 1,
      row_tmax = Some 680, row_tmin = None, row_prcp = Some 10, row_snow = None\<rparr>"

text \<open>
  Lines of the station list, and a stand-in for \<^verbatim>\<open>float\<close> that returns the literal it
  is given, to run the decoder on them.
\<close>

definition float_literal :: "string \<Rightarrow> error + string" where
  "float_literal s = (if s = [] then Inl ValueError else Inr s)"

definition us_station_line :: string where
  "us_station_line =
     ''USW00094728'' @ '' '' @ '' 40.7789'' @ '' '' @ '' -73.9692'' @ '' '' @ ''  39.6'' @ '' NY '' @
     ''NEW YORK CNTRL PK TWR'' @ replicate 9 CHR '' '' @ '' GSN HCN 72506''"

definition us_station_line_no_elevation :: string where
  "us_station_line_no_elevation =
     ''US1CTFR0039'' @ '' '' @ '' 41.1779'' @ '' '' @ '' -73.5074'' @ '' '' @ ''      '' @ '' CT '' @
     ''NEW CANAAN 1.9 ENE'' @ replicate 12 CHR '' ''"

definition ca_station_line :: string where
  "ca_station_line =
     ''CA001010235'' @ '' '' @ '' 48.4000'' @ '' '' @ ''-123.4833'' @ '' '' @ ''  17.0'' @ '' BC '' @
     ''DISCOVERY ISLAND'' @ replicate 14 CHR '' ''"

text \<open>Rows of the table \<^verbatim>\<open>weather_daily\<close>.\<close>

definition stored_row :: weather_row where
  "stored_row =
     \<lparr>row_station_id = ''USW00001234'', row_date = Date 2020 3 1, row_month = 3, row_day = 1,
      row_tmax = Some 590, row_tmin = Some 318, row_prcp = None, row_snow = Some 25\<rparr>"

definition other_row :: weather_row where
  "other_row =
     \<lparr>row_station_id = ''USW00001234'', row_date = Date 2020 3 2, row_month = 3, row_day = 2,
      row_tmax = Some 600, row_tmin = None, row_prcp = None, row_snow = None\<rparr>"

definition stale_row :: weather_row where
  "stale_row =
     \<lparr>row_station_id = ''USW00001234'', row_date = Date 2020 3 1, row_month = 0, row_day = 0,
      row_tmax = Some 590, row_tmin = Some 318, row_prcp = None, row_snow = Some 25\<rparr>"

definition third_row :: weather_row where
  "third_row =
     \<lparr>row_station_id = ''USC00000001'', row_date = Date 2020 3 1, row_month = 3, row_day = 1,
      row_tmax = Some 500, row_tmin = Some 320, row_prcp = None, row_snow = None\<rparr>"

subsection \<open>Notions for the properties\<close>

text \<open>The reading \<open>v\<close> of an element is what the dictionary holds for the date \<open>d\<close>.\<close>

definition stored :: "date \<Rightarrow> string \<Rightarrow> int \<Rightarrow> records \<Rightarrow> bool" where
  "stored d element v records \<longleftrightarrow>
     (\<exists>data. map_of records d = Some data
        \<and> map_of data (lower element) = Some (convert_value element v))"

text \<open>
  The line holds, in one of its 31 slots, the reading \<open>v\<close> of the element for the date \<open>d\<close>:
  it passes the three filters, the value field of the slot is read as \<open>v\<close> and is not the
  literal -9999, and the year, the month and the day of the slot form the date \<open>d\<close>.
\<close>

definition reads :: "int \<Rightarrow> string \<Rightarrow> date \<Rightarrow> string \<Rightarrow> int \<Rightarrow> bool" where
  "reads MIN_YEAR line d element v \<longleftrightarrow>
     269 \<le> length line \<and>
     (case py_int (slice 11 15 line) of
        Inl _ \<Rightarrow> False
      | Inr year \<Rightarrow>
          MIN_YEAR \<le> year \<and>
          (case py_int (slice 15 17 line) of
             Inl _ \<Rightarrow> False
           | Inr month \<Rightarrow>
               slice 17 21 line = element \<and> element \<in> set elements \<and>
               (\<exists>day\<in>set (upto 1 31).
                  value_str line day \<noteq> ''-9999'' \<and> py_int (value_str line day) = Inr v
                  \<and> py_date year month day = Inr d)))"

text \<open>
  What a proposed row \<open>r\<close> does to a row \<open>x\<close> of the table that is there already, and what
  a list of proposed rows does to it, one after the other.
\<close>

definition conflict_update :: "weather_row \<Rightarrow> weather_row \<Rightarrow> weather_row" where
  "conflict_update r x = (if row_key x = row_key r then do_update r x else x)"

definition settle :: "weather_row list \<Rightarrow> weather_row \<Rightarrow> weather_row" where
  "settle rs x = fold conflict_update rs x"

text \<open>The loop over the members followed by the insertion of the remaining records.\<close>

definition finish :: "nat \<Rightarrow> weather_row list list \<Rightarrow> import_state \<Rightarrow> error + import_state" where
  "finish BATCH_SIZE members st =
     (case import_loop BATCH_SIZE members st of Inl e \<Rightarrow> Inl e | Inr st' \<Rightarrow> insert_remaining st')"

section \<open>Properties\<close>

subsection \<open>The temperature conversion\<close>

lemma py_int_of_float_quotient:
  assumes "0 < b"
  shows "py_int_of_float (of_int a / of_int b) = (if 0 \<le> a then a div b else - ((- a) div b))"
proof -
  have s: "(0 \<le> (of_int a / of_int b :: rat)) = (0 \<le> a)"
    using assms by (simp add: zero_le_divide_iff)
  have c: "\<lceil>(of_int a / of_int b :: rat)\<rceil> = - ((- a) div b)"
    unfolding ceiling_def by (simp only: minus_divide_left of_int_minus [symmetric] floor_divide_of_int_eq)
  show ?thesis
    unfolding py_int_of_float_def s c by (simp add: floor_divide_of_int_eq)
qed

lemma fahrenheit_quotient: "(of_int v * 9 / 5 + 320 :: rat) = of_int (9 * v + 1600) / of_int 5"
  by (simp add: field_simps)

lemma celsius_quotient: "(of_int v * 9 / 5 :: rat) = of_int (9 * v) / of_int 5"
  by simp

lemma int_of_fahrenheit:
  "py_int_of_float (of_int v * 9 / 5 + 320) =
     (if 0 \<le> 9 * v + 1600 then (9 * v + 1600) div 5 else - ((- (9 * v + 1600)) div 5))"
  unfolding fahrenheit_quotient by (rule py_int_of_float_quotient) simp

lemma int_of_celsius_part:
  "py_int_of_float (of_int v * 9 / 5) = (if 0 \<le> v then (9 * v) div 5 else - ((- (9 * v)) div 5))"
  unfolding celsius_quotient by (subst py_int_of_float_quotient) simp_all

lemma neg_div_five: "- ((- w) div 5) = (if 5 dvd w then w div 5 else w div 5 + 1)" for w :: int
  by (simp add: zdiv_zminus1_eq_if dvd_eq_mod_eq_0)

lemma shift_div_five: "(w + 1600) div 5 = w div 5 + 320" for w :: int
  by simp

lemma shift_dvd_five: "5 dvd w + 1600 \<longleftrightarrow> 5 dvd w" for w :: int
  by (simp add: dvd_add_left_iff)

lemma nine_dvd_five: "5 dvd 9 * v \<longleftrightarrow> 5 dvd v" for v :: int
  by presburger

lemma int_of_fahrenheit_floor:
  "py_int_of_float (of_int v * 9 / 5 + 320) =
     (if 0 \<le> 9 * v + 1600 \<or> 5 dvd v then (9 * v) div 5 + 320 else (9 * v) div 5 + 321)"
  unfolding int_of_fahrenheit neg_div_five shift_dvd_five shift_div_five nine_dvd_five by simp

lemma int_of_celsius_floor:
  "py_int_of_float (of_int v * 9 / 5) =
     (if 0 \<le> v \<or> 5 dvd v then (9 * v) div 5 else (9 * v) div 5 + 1)"
  unfolding int_of_celsius_part neg_div_five nine_dvd_five by simp

lemma sum_truncation_agrees:
  "0 \<le> v \<or> 5 dvd v \<or> v \<le> - 178 \<Longrightarrow>
     py_int_of_float (of_int v * 9 / 5 + 320) = py_int_of_float (of_int v * 9 / 5) + 320"
  unfolding int_of_fahrenheit_floor int_of_celsius_floor by auto

lemma sum_truncation_differs:
  "\<not> (0 \<le> v \<or> 5 dvd v \<or> v \<le> - 178) \<Longrightarrow>
     py_int_of_float (of_int v * 9 / 5 + 320) = py_int_of_float (of_int v * 9 / 5) + 319"
  unfolding int_of_fahrenheit_floor int_of_celsius_floor by auto

lemma lower_elements:
  "lower ''TMAX'' = ''tmax''" "lower ''TMIN'' = ''tmin''" "lower ''PRCP'' = ''prcp''" "lower ''SNOW'' = ''snow''"
  by (simp_all add: lower_def lower_char_def)

lemma map_of_store_value:
  "map_of (store_value d element v records) d =
     Some (AList.update (lower element) (convert_value element v)
       (case map_of records d of None \<Rightarrow> [] | Some data \<Rightarrow> data))"
  by (simp add: store_value_def update_conv')

lemma py_int_empty: "py_int [] = Inl ValueError"
  by (simp add: py_int_def)

lemma parse_day_stores:
  assumes "value_str line day \<noteq> ''-9999''"
    and "py_int (value_str line day) = Inr v"
    and "py_date year month day = Inr d"
  shows "parse_day year month element line day records = store_value d element v records"
proof -
  have "value_str line day \<noteq> []"
    using assms(2) py_int_empty by auto
  then show ?thesis
    using assms by (simp add: parse_day_def)
qed

lemma convert_temperature:
  "element = ''TMAX'' \<or> element = ''TMIN'' \<Longrightarrow>
     convert_value element v = py_int_of_float (of_int v * 9 / 5 + 320)"
  by (auto simp add: convert_value_def)

text \<open>
  C1, as the code has it. A temperature reading (element TMAX or TMIN) whose value field reads
  as the integer \<open>v\<close> is stored under the date of its slot as \<open>trunc(v * 9 / 5 + 320)\<close>: the
  fraction is dropped, towards zero, after 320 has been added and not before. The stored
  value is \<open>trunc(v * 9 / 5) + 320\<close> when \<open>v \<ge> 0\<close>, when 5 divides \<open>v\<close> or when
  \<open>v \<le> -178\<close>, and one less than that otherwise; 0 gives 320, 100 gives 500, -50 gives 230
  and 37 gives 386.
\<close>

theorem stored_temperature:
  assumes "element = ''TMAX'' \<or> element = ''TMIN''"
    and "value_str line day \<noteq> ''-9999''"
    and "py_int (value_str line day) = Inr v"
    and "py_date year month day = Inr d"
  shows "(\<exists>data. map_of (parse_day year month element line day records) d = Some data
            \<and> map_of data (lower element) = Some (py_int_of_float (of_int v * 9 / 5 + 320)))
     \<and> py_int_of_float (of_int v * 9 / 5 + 320 :: rat) =
         (if 0 \<le> 9 * v + 1600 then (9 * v + 1600) div 5 else - ((- (9 * v + 1600)) div 5))
     \<and> (0 \<le> v \<or> 5 dvd v \<or> v \<le> - 178 \<longrightarrow>
          py_int_of_float (of_int v * 9 / 5 + 320) = py_int_of_float (of_int v * 9 / 5) + 320)
     \<and> (\<not> (0 \<le> v \<or> 5 dvd v \<or> v \<le> - 178) \<longrightarrow>
          py_int_of_float (of_int v * 9 / 5 + 320) = py_int_of_float (of_int v * 9 / 5) + 319)
     \<and> convert_value element 0 = 320 \<and> convert_value element 100 = 500
     \<and> convert_value element (- 50) = 230 \<and> convert_value element 37 = 386"
proof -
  have stored: "\<exists>data. map_of (parse_day year month element line day records) d = Some data
      \<and> map_of data (lower element) = Some (py_int_of_float (of_int v * 9 / 5 + 320))"
    unfolding parse_day_stores [OF assms(2-4)] map_of_store_value
    by (simp add: update_conv' convert_temperature [OF assms(1)])
  have examples: "convert_value element 0 = 320 \<and> convert_value element 100 = 500
      \<and> convert_value element (- 50) = 230 \<and> convert_value element 37 = 386"
    unfolding convert_temperature [OF assms(1)] int_of_fahrenheit by simp
  show ?thesis
    using stored examples int_of_fahrenheit [of v] sum_truncation_agrees [of v]
      sum_truncation_differs [of v]
    by blast
qed

lemma example_tmin_slot: "value_str (example_line tmin_header) 1 = ''-1''"
  by code_simp

theorem stored_temperature_witness:
  "value_str (example_line tmin_header) 1 \<noteq> ''-9999''
   \<and> py_int (value_str (example_line tmin_header) 1) = Inr (- 1)
   \<and> py_date 2020 3 1 = Inr (Date 2020 3 1)
   \<and> (\<exists>data. map_of (parse_day 2020 3 ''TMIN'' (example_line tmin_header) 1 []) (Date 2020 3 1) = Some data
         \<and> map_of data ''tmin'' = Some 318)
   \<and> py_int_of_float (of_int (- 1) * 9 / 5) + 319 = 318"
proof -
  have h2: "value_str (example_line tmin_header) 1 \<noteq> ''-9999''"
    unfolding example_tmin_slot by simp
  have h3: "py_int (value_str (example_line tmin_header) 1) = Inr (- 1)"
    unfolding example_tmin_slot by code_simp
  have h4: "py_date 2020 3 1 = Inr (Date 2020 3 1)"
    by code_simp
  have v: "py_int_of_float (of_int (- 1) * 9 / 5 + 320) = 318"
    by code_simp
  show ?thesis
    using h2 h3 h4 stored_temperature [of "''TMIN''", OF _ h2 h3 h4, of "[]"]
    unfolding v lower_elements by simp
qed

theorem stored_temperature_counterexample:
  "parse_day 2020 3 ''TMIN'' (example_line tmin_header) 1 [] = [(Date 2020 3 1, [(''tmin'', 318)])]
   \<and> py_int_of_float (of_int (- 1) * 9 / 5) + 320 = 319
   \<and> convert_value ''TMIN'' (- 179) = - 2
   \<and> \<lfloor>of_int (- 179) * 9 / 5 :: rat\<rfloor> + 320 = - 3"
  by code_simp

subsection \<open>Slots that record nothing\<close>

lemma fold_without:
  assumes "\<And>s. f a s = s"
  shows "fold f xs s = fold f (filter (\<lambda>x. x \<noteq> a) xs) s"
  using assms by (induction xs arbitrary: s) simp_all

text \<open>
  C5. If the trimmed five-character value field of a day slot is the literal -9999 or is
  empty, the slot records nothing, for every line, element, year, month and day: the
  dictionary of the dates is returned as it was, and the line is parsed as if the slot were
  not among the 31.
\<close>

theorem missing_value_skipped:
  assumes "value_str line day = ''-9999'' \<or> value_str line day = []"
  shows "parse_day year month element line day records = records
     \<and> fold (parse_day year month element line) (upto 1 31) records =
         fold (parse_day year month element line) (filter (\<lambda>k. k \<noteq> day) (upto 1 31)) records"
proof -
  have skip: "parse_day year month element line day s = s" for s
    using assms by (auto simp add: parse_day_def)
  show ?thesis
    using skip fold_without [of "parse_day year month element line" day, OF skip] by simp
qed

lemma example_february_slots:
  "value_str example_february_line 28 = ''-9999''"
  "value_str example_february_line 31 = []"
  "value_str example_february_line 30 = ''110''"
  "py_int (slice 11 15 example_february_line) = Inr 2020"
  "py_int (slice 15 17 example_february_line) = Inr 2"
  by code_simp+

theorem missing_value_skipped_witness:
  "value_str example_february_line 28 = ''-9999''
   \<and> parse_day 2020 2 ''TMAX'' example_february_line 28 [] = []
   \<and> value_str example_february_line 31 = []
   \<and> parse_day 2020 2 ''TMAX'' example_february_line 31 [] = []"
  using missing_value_skipped [of example_february_line 28 2020 2 "''TMAX''" "[]"]
    missing_value_skipped [of example_february_line 31 2020 2 "''TMAX''" "[]"]
    example_february_slots(1,2)
  by blast

lemma py_date_invalid:
  "\<not> (1 \<le> year \<and> year \<le> 9999 \<and> 1 \<le> month \<and> month \<le> 12
       \<and> 1 \<le> day \<and> day \<le> days_in_month year month)
   \<Longrightarrow> py_date year month day = Inl ValueError"
  by (simp add: py_date_def)

lemma parse_day_invalid_date:
  "py_date year month day = Inl e \<Longrightarrow> parse_day year month element line day s = s"
  by (simp add: parse_day_def split: sum.splits)

lemma parse_line_header_read:
  assumes "py_int (slice 11 15 line) = Inr year" and "py_int (slice 15 17 line) = Inr month"
  shows "\<exists>records'. parse_line MIN_YEAR line records = Inr records'"
  using assms by (simp add: parse_line_def)

text \<open>
  C6. If (year, month, day) is not a calendar date (the year outside 1 to 9999, the month
  outside 1 to 12, or the day outside the month, as day 30 of a February), the slot records
  nothing and the line is parsed as if the slot were not there; the failed construction of
  the date is caught in the slot, so a line whose year and month fields have been read
  returns a dictionary and no error.
\<close>

theorem invalid_date_skipped:
  assumes "\<not> (1 \<le> year \<and> year \<le> 9999 \<and> 1 \<le> month \<and> month \<le> 12
       \<and> 1 \<le> day \<and> day \<le> days_in_month year month)"
  shows "parse_day year month element line day records = records
     \<and> fold (parse_day year month element line) (upto 1 31) records =
         fold (parse_day year month element line) (filter (\<lambda>k. k \<noteq> day) (upto 1 31)) records
     \<and> (py_int (slice 11 15 line) = Inr year \<and> py_int (slice 15 17 line) = Inr month \<longrightarrow>
           (\<exists>records'. parse_line MIN_YEAR line records = Inr records'))"
proof -
  have skip: "parse_day year month element line day s = s" for s
    using parse_day_invalid_date [OF py_date_invalid [OF assms]] .
  show ?thesis
    using skip fold_without [of "parse_day year month element line" day, OF skip]
      parse_line_header_read [of line year month]
    by auto
qed

theorem invalid_date_skipped_witness:
  "\<not> (30 \<le> days_in_month 2020 2)
   \<and> value_str example_february_line 30 = ''110''
   \<and> parse_day 2020 2 ''TMAX'' example_february_line 30 [] = []
   \<and> (\<exists>records'. parse_line 2000 example_february_line [] = Inr records')"
proof -
  have h: "\<not> (1 \<le> (2020::int) \<and> (2020::int) \<le> 9999 \<and> 1 \<le> (2::int) \<and> (2::int) \<le> 12
       \<and> 1 \<le> (30::int) \<and> 30 \<le> days_in_month 2020 2)"
    by (simp add: days_in_month_def is_leap_def)
  show ?thesis
    using h example_february_slots(3,4,5)
      invalid_date_skipped [OF h, of "''TMAX''" example_february_line "[]" 2000]
    by simp
qed

subsection \<open>The filters of a line\<close>

lemma fold_unchanged:
  "(\<And>k s. k \<in> set ks \<Longrightarrow> f k s = s) \<Longrightarrow> fold f ks s = s"
  by (induction ks arbitrary: s) simp_all

lemma strip_spaces: "strip (replicate n CHR '' '') = []"
proof -
  have "dropWhile py_isspace (replicate n CHR '' '') = []"
    by (simp add: py_isspace_def)
  then show ?thesis by (simp add: strip_def)
qed

lemma slice_prefix: "b \<le> length pre \<Longrightarrow> slice a b (pre @ xs) = slice a b pre"
  by (simp add: slice_def)

lemma slice_padding:
  "length pre \<le> a \<Longrightarrow> slice a b (pre @ replicate n c) = replicate (min (b - a) (n - (a - length pre))) c"
  by (simp add: slice_def min_def)

lemma blank_slot:
  assumes "length pre = 29" and "2 \<le> day"
  shows "value_str (pre @ replicate n CHR '' '') day = []"
proof -
  have "length pre \<le> nat (21 + (day - 1) * 8)"
    using assms by simp
  then show ?thesis
    by (simp add: value_str_def Let_def slice_padding strip_spaces)
qed

lemma parse_day_blank: "value_str line day = [] \<Longrightarrow> parse_day year month element line day s = s"
  by (simp add: parse_day_def)

lemma days_unfold: "upto 1 31 = 1 # upto 2 31"
  by (simp add: upto_rec1)

lemma parse_line_single_slot:
  assumes "length pre = 29" and "py_int (slice 11 15 pre) = Inr year" and "MIN_YEAR \<le> year"
    and "py_int (slice 15 17 pre) = Inr month" and "slice 17 21 pre \<in> set elements"
  shows "parse_line MIN_YEAR (pre @ replicate 240 CHR '' '') records =
     Inr (parse_day year month (slice 17 21 pre) (pre @ replicate 240 CHR '' '') 1 records)"
proof -
  have rest: "fold (parse_day y m element (pre @ replicate 240 CHR '' '')) (upto 2 31) s = s"
    for y m element s
  proof (rule fold_unchanged)
    fix k :: int and t :: records
    assume "k \<in> set (upto 2 31)"
    then have "2 \<le> k"
      by (simp only: set_upto atLeastAtMost_iff)
    then show "parse_day y m element (pre @ replicate 240 CHR '' '') k t = t"
      by (simp add: parse_day_blank blank_slot [OF assms(1)])
  qed
  have days: "fold (parse_day y m element (pre @ replicate 240 CHR '' '')) (upto 1 31) s
      = parse_day y m element (pre @ replicate 240 CHR '' '') 1 s" for y m element s
    unfolding days_unfold by (simp only: fold_simps comp_apply rest)
  show ?thesis
    unfolding parse_line_def days
    using assms by (simp add: slice_prefix)
qed

lemma value_str_first:
  assumes "length pre = 29"
  shows "value_str (pre @ xs) 1 = strip (slice 21 26 pre)"
  using assms by (simp add: value_str_def slice_prefix)

lemma parse_line_one_reading:
  assumes "length pre = 29" and "py_int (slice 11 15 pre) = Inr year" and "MIN_YEAR \<le> year"
    and "py_int (slice 15 17 pre) = Inr month" and "slice 17 21 pre = element"
    and "element \<in> set elements" and "strip (slice 21 26 pre) \<noteq> ''-9999''"
    and "py_int (strip (slice 21 26 pre)) = Inr v" and "py_date year month 1 = Inr d"
  shows "parse_line MIN_YEAR (example_line pre) records = Inr (store_value d element v records)"
proof -
  have "parse_line MIN_YEAR (example_line pre) records =
      Inr (parse_day year month element (example_line pre) 1 records)"
    unfolding example_line_def
    using parse_line_single_slot [OF assms(1-4), of records] assms(5,6) by simp
  moreover have "parse_day year month element (example_line pre) 1 records =
      store_value d element v records"
    unfolding example_line_def
    by (rule parse_day_stores) (simp_all add: value_str_first [OF assms(1)] assms(7-9))
  ultimately show ?thesis by simp
qed

lemma example_tmax_line:
  "parse_line 2000 (example_line tmax_header) records =
     Inr (store_value (Date 2020 3 1) ''TMAX'' 150 records)"
  by (rule parse_line_one_reading [where year = 2020 and month = 3]) code_simp+

lemma example_prcp_line:
  "parse_line 2000 (example_line prcp_header) records =
     Inr (store_value (Date 2020 3 1) ''PRCP'' 10 records)"
  by (rule parse_line_one_reading [where year = 2020 and month = 3]) code_simp+

lemma example_snow_line:
  "parse_line 2000 (example_line snow_header) records =
     Inr (store_value (Date 2020 4 1) ''SNOW'' 25 records)"
  by (rule parse_line_one_reading [where year = 2020 and month = 4]) code_simp+

lemma example_tmax_again_line:
  "parse_line 2000 (example_line tmax_again_header) records =
     Inr (store_value (Date 2020 3 1) ''TMAX'' 200 records)"
  by (rule parse_line_one_reading [where year = 2020 and month = 3]) code_simp+

text \<open>
  C7, as the code has it. A line changes the dictionary only if it has at least 269
  characters, its year field (columns 12 to 15) is an integer not below the minimum year and
  its element code (columns 18 to 21) is TMAX, TMIN, PRCP or SNOW. A line of fewer than 269
  characters is skipped, a line whose year field is an integer below the minimum year is
  skipped, and a line whose year and month fields are integers and whose element code is
  none of the four is skipped. A line of at least 269 characters is not skipped but ends the
  parse with ValueError when its year field is not an integer, or when its year passes and
  its month field (columns 16 and 17) is not an integer.
\<close>

theorem line_filters:
  "(parse_line MIN_YEAR line records = Inr records' \<and> records' \<noteq> records \<longrightarrow>
      269 \<le> length line
      \<and> (\<exists>year. py_int (slice 11 15 line) = Inr year \<and> MIN_YEAR \<le> year)
      \<and> slice 17 21 line \<in> set [''TMAX'', ''TMIN'', ''PRCP'', ''SNOW''])
   \<and> (length line < 269 \<longrightarrow> parse_line MIN_YEAR line records = Inr records)
   \<and> (py_int (slice 11 15 line) = Inr year \<and> year < MIN_YEAR \<longrightarrow>
        parse_line MIN_YEAR line records = Inr records)
   \<and> (py_int (slice 11 15 line) = Inr year \<and> py_int (slice 15 17 line) = Inr month
        \<and> slice 17 21 line \<notin> set [''TMAX'', ''TMIN'', ''PRCP'', ''SNOW''] \<longrightarrow>
        parse_line MIN_YEAR line records = Inr records)
   \<and> (parse_line MIN_YEAR line records = Inl e \<longleftrightarrow>
        269 \<le> length line
        \<and> (py_int (slice 11 15 line) = Inl e
           \<or> (\<exists>y. py_int (slice 11 15 line) = Inr y \<and> MIN_YEAR \<le> y
                 \<and> py_int (slice 15 17 line) = Inl e)))"
  by (auto simp add: parse_line_def elements_def split: sum.splits if_splits)

theorem line_filters_witness:
  "parse_line 2000 (example_line tmax_header) [] = Inr [(Date 2020 3 1, [(''tmax'', 590)])]
   \<and> 269 \<le> length (example_line tmax_header)
   \<and> (\<exists>year. py_int (slice 11 15 (example_line tmax_header)) = Inr year \<and> 2000 \<le> year)
   \<and> slice 17 21 (example_line tmax_header) \<in> set [''TMAX'', ''TMIN'', ''PRCP'', ''SNOW'']
   \<and> parse_line 2000 tmax_header [] = Inr []
   \<and> parse_line 2021 (example_line tmax_header) [] = Inr []
   \<and> parse_line 2000 (example_line tavg_header) [] = Inr []"
proof -
  have parsed: "parse_line 2000 (example_line tmax_header) [] = Inr [(Date 2020 3 1, [(''tmax'', 590)])]"
    unfolding example_tmax_line by code_simp
  have short: "length tmax_header < 269"
    by code_simp
  have old: "py_int (slice 11 15 (example_line tmax_header)) = Inr 2020 \<and> (2020::int) < 2021"
    by code_simp
  have other: "py_int (slice 11 15 (example_line tavg_header)) = Inr 2020
      \<and> py_int (slice 15 17 (example_line tavg_header)) = Inr 3
      \<and> slice 17 21 (example_line tavg_header) \<notin> set [''TMAX'', ''TMIN'', ''PRCP'', ''SNOW'']"
    by code_simp
  have passes: "269 \<le> length (example_line tmax_header)
      \<and> (\<exists>year. py_int (slice 11 15 (example_line tmax_header)) = Inr year \<and> 2000 \<le> year)
      \<and> slice 17 21 (example_line tmax_header) \<in> set [''TMAX'', ''TMIN'', ''PRCP'', ''SNOW'']"
    by (rule mp [OF line_filters [of 2000 "example_line tmax_header" "[]"
            "[(Date 2020 3 1, [(''tmax'', 590)])]", THEN conjunct1]])
      (simp add: parsed)
  have b: "parse_line 2000 tmax_header [] = Inr []"
    by (rule mp [OF line_filters [THEN conjunct2, THEN conjunct1]]) (rule short)
  have c: "parse_line 2021 (example_line tmax_header) [] = Inr []"
    by (rule mp [OF line_filters [THEN conjunct2, THEN conjunct2, THEN conjunct1]]) (rule old)
  have d: "parse_line 2000 (example_line tavg_header) [] = Inr []"
    by (rule mp [OF line_filters [THEN conjunct2, THEN conjunct2, THEN conjunct2, THEN conjunct1]])
      (rule other)
  show ?thesis
    by (intro conjI parsed passes [THEN conjunct1] passes [THEN conjunct2, THEN conjunct1]
        passes [THEN conjunct2, THEN conjunct2] b c d)
qed

theorem line_filters_counterexample:
  "269 \<le> length (example_line bad_month_header)
   \<and> py_int (slice 11 15 (example_line bad_month_header)) = Inr 2020
   \<and> slice 17 21 (example_line bad_month_header) = ''TAVG''
   \<and> parse_line 2000 (example_line bad_month_header) [] = Inl ValueError
   \<and> parse_dly_file 2000 (example_line bad_month_header) ''USW00001234'' = Inl ValueError"
  by code_simp

subsection \<open>The dates of the output\<close>

lemma map_of_store_value_other:
  "d' \<noteq> d \<Longrightarrow> map_of (store_value d element v records) d' = map_of records d'"
  by (simp add: store_value_def update_conv')

lemma distinct_store_value:
  "distinct (map fst records) \<Longrightarrow> distinct (map fst (store_value d element v records))"
  by (simp add: store_value_def distinct_update)

lemma distinct_parse_day:
  "distinct (map fst records) \<Longrightarrow>
     distinct (map fst (parse_day year month element line day records))"
  by (simp add: parse_day_def distinct_store_value split: sum.splits)

lemma distinct_parse_days:
  "distinct (map fst records) \<Longrightarrow>
     distinct (map fst (fold (parse_day year month element line) days records))"
  by (induction days arbitrary: records) (simp_all add: distinct_parse_day)

lemma distinct_parse_line:
  assumes "parse_line MIN_YEAR line records = Inr records'" and "distinct (map fst records)"
  shows "distinct (map fst records')"
  using assms
  by (auto simp add: parse_line_def distinct_parse_days split: if_splits sum.splits)

lemma distinct_parse_lines:
  assumes "parse_lines MIN_YEAR lines records = Inr records'" and "distinct (map fst records)"
  shows "distinct (map fst records')"
  using assms
proof (induction lines arbitrary: records)
  case Nil
  then show ?case by simp
next
  case (Cons line rest)
  then obtain mid where mid: "parse_line MIN_YEAR line records = Inr mid"
    and rest: "parse_lines MIN_YEAR rest mid = Inr records'"
    by (auto split: sum.splits)
  from Cons.IH [OF rest distinct_parse_line [OF mid Cons.prems(2)]] show ?case .
qed

lemma distinct_group_records:
  assumes "group_records MIN_YEAR file_content = Inr records"
  shows "distinct (map fst records)"
  using distinct_parse_lines [OF assms [unfolded group_records_def]] by simp

lemma parse_dly_file_rows:
  assumes "parse_dly_file MIN_YEAR file_content station_id = Inr rows"
  obtains records where "group_records MIN_YEAR file_content = Inr records"
    and "rows = to_rows station_id records"
  using assms by (auto simp add: parse_dly_file_def split: sum.splits)

lemma row_date_make_row: "row_date (make_row station_id item) = fst item"
  by (simp add: make_row_def)

lemma dates_to_rows:
  "map row_date (to_rows station_id records) =
     map fst (filter (\<lambda>item. has_temperature (snd item)) records)"
  by (simp add: to_rows_def row_date_make_row comp_def)

lemma distinct_row_dates:
  "distinct (map fst records) \<Longrightarrow> distinct (map row_date (to_rows station_id records))"
  unfolding dates_to_rows by (simp add: distinct_map_filter)

lemma distinct_row_keys:
  assumes "distinct (map row_date rows)"
  shows "distinct (map row_key rows)"
proof -
  have "map row_date rows = map snd (map row_key rows)"
    by (simp add: row_key_def comp_def)
  with assms have "distinct (map snd (map row_key rows))"
    by simp
  then show ?thesis
    by (simp only: distinct_map)
qed

lemma split_from_last: "CHR 0x0A \<notin> set l \<Longrightarrow> split_from piece l = [rev piece @ l]"
  by (induction l arbitrary: piece) auto

lemma split_from_snoc:
  "CHR 0x0A \<notin> set l \<Longrightarrow>
     split_from piece (before @ CHR 0x0A # l) = split_from piece before @ [l]"
  by (induction before arbitrary: piece) (simp_all add: split_from_last)

lemma split_from_line:
  "CHR 0x0A \<notin> set l \<Longrightarrow>
     split_from piece (l @ CHR 0x0A # rest) = (rev piece @ l) # split_from [] rest"
  by (induction l arbitrary: piece) auto

lemma parse_lines_snoc:
  "parse_lines MIN_YEAR (ls @ [l]) records =
     (case parse_lines MIN_YEAR ls records of
        Inl e \<Rightarrow> Inl e
      | Inr records' \<Rightarrow> parse_line MIN_YEAR l records')"
  by (induction ls arbitrary: records) (simp_all split: sum.splits)

lemma example_lines_no_newline:
  "CHR 0x0A \<notin> set (example_line tmax_header)"
  "CHR 0x0A \<notin> set (example_line prcp_header)"
  "CHR 0x0A \<notin> set (example_line snow_header)"
  "CHR 0x0A \<notin> set (example_line tmax_again_header)"
  by code_simp+

lemma example_file_lines:
  "split_newline example_file =
     [example_line tmax_header, example_line prcp_header, example_line snow_header,
      example_line tmax_again_header]"
  unfolding split_newline_def example_file_def
  by (simp only: split_from_line example_lines_no_newline split_from_last rev.simps append_Nil
      not_False_eq_True)

lemma example_file_records:
  "group_records 2000 example_file =
     Inr [(Date 2020 3 1, [(''tmax'', 680), (''prcp'', 10)]), (Date 2020 4 1, [(''snow'', 25)])]"
proof -
  have "group_records 2000 example_file =
      Inr (store_value (Date 2020 3 1) ''TMAX'' 200
            (store_value (Date 2020 4 1) ''SNOW'' 25
              (store_value (Date 2020 3 1) ''PRCP'' 10
                (store_value (Date 2020 3 1) ''TMAX'' 150 []))))"
    unfolding group_records_def example_file_lines
    by (simp only: parse_lines.simps example_tmax_line example_prcp_line example_snow_line
        example_tmax_again_line sum.case)
  also have "\<dots> = Inr [(Date 2020 3 1, [(''tmax'', 680), (''prcp'', 10)]),
      (Date 2020 4 1, [(''snow'', 25)])]"
    by code_simp
  finally show ?thesis .
qed

lemma example_file_rows: "parse_dly_file 2000 example_file ''USW00001234'' = Inr [example_row]"
  unfolding parse_dly_file_def example_file_records by code_simp

text \<open>
  C4. When \<^verbatim>\<open>parse_dly_file\<close> returns, a date is the date of an output row if and only if
  the grouped dictionary holds for it a value under tmax or under tmin; a date that holds
  values under prcp or snow only has no row.
\<close>

theorem temperature_dates_only:
  assumes "parse_dly_file MIN_YEAR file_content station_id = Inr rows"
  shows "\<exists>records. group_records MIN_YEAR file_content = Inr records
     \<and> (\<forall>d. d \<in> set (map row_date rows) \<longleftrightarrow>
           (\<exists>data. map_of records d = Some data
              \<and> (map_of data ''tmax'' \<noteq> None \<or> map_of data ''tmin'' \<noteq> None)))
     \<and> (\<forall>d data. map_of records d = Some data
            \<and> map_of data ''tmax'' = None \<and> map_of data ''tmin'' = None
           \<longrightarrow> d \<notin> set (map row_date rows))"
proof -
  from assms obtain records where g: "group_records MIN_YEAR file_content = Inr records"
    and rows: "rows = to_rows station_id records"
    by (rule parse_dly_file_rows)
  have dist: "distinct (map fst records)"
    using g by (rule distinct_group_records)
  have iff: "d \<in> set (map row_date rows) \<longleftrightarrow>
      (\<exists>data. map_of records d = Some data
         \<and> (map_of data ''tmax'' \<noteq> None \<or> map_of data ''tmin'' \<noteq> None))" for d
    unfolding rows dates_to_rows using dist
    by (auto simp add: has_temperature_def image_iff)
  show ?thesis
    using g iff by auto
qed

theorem temperature_dates_only_witness:
  "parse_dly_file 2000 example_file ''USW00001234'' = Inr [example_row]
   \<and> group_records 2000 example_file =
       Inr [(Date 2020 3 1, [(''tmax'', 680), (''prcp'', 10)]), (Date 2020 4 1, [(''snow'', 25)])]
   \<and> Date 2020 3 1 \<in> set (map row_date [example_row])
   \<and> Date 2020 4 1 \<notin> set (map row_date [example_row])"
proof -
  from temperature_dates_only [OF example_file_rows]
  have dates: "d \<in> set (map row_date [example_row]) \<longleftrightarrow>
      (\<exists>data. map_of [(Date 2020 3 1, [(''tmax'', 680::int), (''prcp'', 10)]),
                       (Date 2020 4 1, [(''snow'', 25)])] d = Some data
         \<and> (map_of data ''tmax'' \<noteq> None \<or> map_of data ''tmin'' \<noteq> None))" for d
    unfolding example_file_records by blast
  have "Date 2020 3 1 \<in> set (map row_date [example_row])"
    unfolding dates by simp
  moreover have "Date 2020 4 1 \<notin> set (map row_date [example_row])"
    unfolding dates by simp
  ultimately show ?thesis
    using example_file_rows example_file_records by simp
qed

lemma py_date_result: "py_date year month day = Inr d \<Longrightarrow> d = Date year month day"
  by (auto simp add: py_date_def split: if_splits)

lemma stored_store_value: "stored d element v (store_value d element v records)"
  by (simp add: stored_def map_of_store_value update_conv')

lemma stored_parse_day:
  assumes "value_str line day \<noteq> ''-9999''" and "py_int (value_str line day) = Inr v"
    and "py_date year month day = Inr d"
  shows "stored d element v (parse_day year month element line day records)"
  unfolding parse_day_stores [OF assms] by (rule stored_store_value)

lemma stored_kept:
  assumes "value_str line day \<noteq> ''-9999''" and "py_int (value_str line day) = Inr v"
    and "py_date year month day = Inr d" and "stored d element v records"
  shows "stored d element v (parse_day year month element line k records)"
proof (cases "k = day")
  case True
  then show ?thesis
    using stored_parse_day [OF assms(1-3)] by simp
next
  case False
  have d: "d = Date year month day"
    using assms(3) by (rule py_date_result)
  show ?thesis
  proof (cases "parse_day year month element line k records = records")
    case True
    then show ?thesis using assms(4) by simp
  next
    case changed: False
    then obtain w d' where "py_date year month k = Inr d'"
      and p: "parse_day year month element line k records = store_value d' element w records"
      by (auto simp add: parse_day_def split: if_splits sum.splits)
    then have "d' \<noteq> d"
      using False d by (auto dest: py_date_result)
    then show ?thesis
      using assms(4) unfolding p stored_def by (simp add: map_of_store_value_other)
  qed
qed

lemma stored_kept_days:
  assumes "value_str line day \<noteq> ''-9999''" and "py_int (value_str line day) = Inr v"
    and "py_date year month day = Inr d" and "stored d element v records"
  shows "stored d element v (fold (parse_day year month element line) days records)"
  using assms(4)
  by (induction days arbitrary: records) (simp_all add: stored_kept [OF assms(1-3)])

lemma stored_after_days:
  assumes "value_str line day \<noteq> ''-9999''" and "py_int (value_str line day) = Inr v"
    and "py_date year month day = Inr d" and "day \<in> set days"
  shows "stored d element v (fold (parse_day year month element line) days records)"
  using assms(4)
proof (induction days arbitrary: records)
  case Nil
  then show ?case by simp
next
  case (Cons k days)
  show ?case
  proof (cases "k = day")
    case True
    then show ?thesis
      using stored_kept_days [OF assms(1-3) stored_parse_day [OF assms(1-3)]] by simp
  next
    case False
    then show ?thesis
      using Cons by simp
  qed
qed

lemma row_of_date:
  assumes "distinct (map fst records)" and "r \<in> set (to_rows station_id records)"
  shows "\<exists>data. map_of records (row_date r) = Some data \<and> r = make_row station_id (row_date r, data)"
proof -
  from assms(2) obtain item where "item \<in> set records" and r: "r = make_row station_id item"
    by (auto simp add: to_rows_def)
  then have "map_of records (fst item) = Some (snd item)"
    using assms(1) by simp
  then show ?thesis
    using r by (simp add: row_date_make_row)
qed

lemma row_exists:
  assumes "map_of records d = Some data" and "has_temperature data"
  shows "\<exists>r\<in>set (to_rows station_id records). row_date r = d"
proof -
  have "(d, data) \<in> set records"
    using assms(1) by (rule map_of_SomeD)
  then have "make_row station_id (d, data) \<in> set (to_rows station_id records)"
    using assms(2) by (auto simp add: to_rows_def)
  then show ?thesis
    by (rule bexI [rotated]) (simp add: row_date_make_row)
qed

lemma readsE:
  assumes "reads MIN_YEAR line d element v"
  obtains year month day where "269 \<le> length line"
    and "py_int (slice 11 15 line) = Inr year" and "MIN_YEAR \<le> year"
    and "py_int (slice 15 17 line) = Inr month"
    and "slice 17 21 line = element" and "element \<in> set elements"
    and "day \<in> set (upto 1 31)"
    and "value_str line day \<noteq> ''-9999''" and "py_int (value_str line day) = Inr v"
    and "py_date year month day = Inr d"
  using assms unfolding reads_def by (auto split: sum.splits)

lemma readsI:
  assumes "269 \<le> length line"
    and "py_int (slice 11 15 line) = Inr year" and "MIN_YEAR \<le> year"
    and "py_int (slice 15 17 line) = Inr month"
    and "slice 17 21 line = element" and "element \<in> set elements"
    and "day \<in> set (upto 1 31)"
    and "value_str line day \<noteq> ''-9999''" and "py_int (value_str line day) = Inr v"
    and "py_date year month day = Inr d"
  shows "reads MIN_YEAR line d element v"
  unfolding reads_def using assms by auto

lemma lower_elements_inj:
  assumes "a \<in> set elements" and "b \<in> set elements" and "lower a = lower b"
  shows "a = b"
  using assms by (auto simp add: elements_def lower_elements)

lemma stored_other_date:
  "d' \<noteq> d \<Longrightarrow> stored d element v records \<Longrightarrow>
     stored d element v (store_value d' element' w records)"
  by (simp add: stored_def map_of_store_value_other)

lemma stored_other_element:
  assumes "lower element' \<noteq> lower element" and "stored d element v records"
  shows "stored d element v (store_value d element' w records)"
  using assms by (auto simp add: stored_def map_of_store_value update_conv')

lemma stored_after_reading:
  assumes "reads MIN_YEAR line d element v"
    and "parse_line MIN_YEAR line records = Inr records'"
  shows "stored d element v records'"
proof -
  from assms(1) obtain year month day where h: "269 \<le> length line"
    "py_int (slice 11 15 line) = Inr year" "MIN_YEAR \<le> year"
    "py_int (slice 15 17 line) = Inr month"
    "slice 17 21 line = element" "element \<in> set elements"
    "day \<in> set (upto 1 31)"
    "value_str line day \<noteq> ''-9999''" "py_int (value_str line day) = Inr v"
    "py_date year month day = Inr d"
    by (rule readsE)
  have "records' = fold (parse_day year month element line) (upto 1 31) records"
    using assms(2) h(1-6) unfolding parse_line_def by simp
  then show ?thesis
    using stored_after_days [OF h(8-10) h(7)] by simp
qed

lemma stored_not_overwritten_day:
  assumes "stored d element v records" and "element \<in> set elements"
    and "element' \<in> set elements"
    and none: "\<not> (element' = element \<and> value_str line k \<noteq> ''-9999''
      \<and> (\<exists>w. py_int (value_str line k) = Inr w) \<and> py_date year month k = Inr d)"
  shows "stored d element v (parse_day year month element' line k records)"
proof (cases "parse_day year month element' line k records = records")
  case True
  then show ?thesis using assms(1) by simp
next
  case False
  then obtain w d' where v: "value_str line k \<noteq> ''-9999''"
    and w: "py_int (value_str line k) = Inr w"
    and d': "py_date year month k = Inr d'"
    and p: "parse_day year month element' line k records = store_value d' element' w records"
    by (auto simp add: parse_day_def split: if_splits sum.splits)
  show ?thesis
  proof (cases "d' = d")
    case True
    then have "element' \<noteq> element"
      using none v w d' by auto
    then have "lower element' \<noteq> lower element"
      using lower_elements_inj [OF assms(3) assms(2)] by auto
    then show ?thesis
      unfolding p True using assms(1) by (rule stored_other_element)
  next
    case False
    then show ?thesis
      unfolding p using assms(1) by (rule stored_other_date)
  qed
qed

lemma stored_not_overwritten_days:
  assumes "element \<in> set elements" and "element' \<in> set elements"
    and none: "\<And>k. k \<in> set days \<Longrightarrow> \<not> (element' = element \<and> value_str line k \<noteq> ''-9999''
      \<and> (\<exists>w. py_int (value_str line k) = Inr w) \<and> py_date year month k = Inr d)"
  shows "stored d element v records \<Longrightarrow>
     stored d element v (fold (parse_day year month element' line) days records)"
  using none
proof (induction days arbitrary: records)
  case Nil
  then show ?case by simp
next
  case (Cons k days)
  have "stored d element v (parse_day year month element' line k records)"
    using Cons.prems(1) assms(1,2) by (rule stored_not_overwritten_day) (rule Cons.prems(2), simp)
  then show ?case
    using Cons.IH Cons.prems(2) by simp
qed

lemma stored_not_overwritten_line:
  assumes "stored d element v records" and "element \<in> set elements"
    and "parse_line MIN_YEAR line records = Inr records'"
    and none: "\<And>w. \<not> reads MIN_YEAR line d element w"
  shows "stored d element v records'"
proof (cases "records' = records")
  case True
  then show ?thesis using assms(1) by simp
next
  case False
  then obtain year month where h: "269 \<le> length line"
    "py_int (slice 11 15 line) = Inr year" "MIN_YEAR \<le> year"
    "py_int (slice 15 17 line) = Inr month" "slice 17 21 line \<in> set elements"
    and r: "records' = fold (parse_day year month (slice 17 21 line) line) (upto 1 31) records"
    using assms(3) unfolding parse_line_def by (auto split: if_splits sum.splits)
  have "stored d element v (fold (parse_day year month (slice 17 21 line) line) (upto 1 31) records)"
    using assms(2) h(5)
  proof (rule stored_not_overwritten_days)
    fix k
    assume k: "k \<in> set (upto 1 31)"
    show "\<not> (slice 17 21 line = element \<and> value_str line k \<noteq> ''-9999''
      \<and> (\<exists>w. py_int (value_str line k) = Inr w) \<and> py_date year month k = Inr d)"
    proof
      assume a: "slice 17 21 line = element \<and> value_str line k \<noteq> ''-9999''
        \<and> (\<exists>w. py_int (value_str line k) = Inr w) \<and> py_date year month k = Inr d"
      then obtain w where w: "py_int (value_str line k) = Inr w" by blast
      have "reads MIN_YEAR line d element w"
        using h(1-4) _ assms(2) k _ w
      proof (rule readsI)
        show "slice 17 21 line = element" using a by simp
        show "value_str line k \<noteq> ''-9999''" using a by simp
        show "py_date year month k = Inr d" using a by simp
      qed
      then show False using none by simp
    qed
  qed (rule assms(1))
  then show ?thesis by (simp add: r)
qed

lemma stored_not_overwritten_lines:
  assumes "element \<in> set elements"
    and none: "\<And>l w. l \<in> set ls \<Longrightarrow> \<not> reads MIN_YEAR l d element w"
  shows "stored d element v records \<Longrightarrow> parse_lines MIN_YEAR ls records = Inr records'
     \<Longrightarrow> stored d element v records'"
  using none
proof (induction ls arbitrary: records)
  case Nil
  then show ?case by simp
next
  case (Cons l ls)
  from Cons.prems(2) obtain mid where mid: "parse_line MIN_YEAR l records = Inr mid"
    and rest: "parse_lines MIN_YEAR ls mid = Inr records'"
    by (auto split: sum.splits)
  have "stored d element v mid"
    using Cons.prems(1) assms(1) mid by (rule stored_not_overwritten_line) (simp add: Cons.prems(3))
  then show ?case
    using rest Cons.prems(3) by (intro Cons.IH) simp_all
qed

lemma parse_lines_append:
  "parse_lines MIN_YEAR (xs @ ys) records =
     (case parse_lines MIN_YEAR xs records of
        Inl e \<Rightarrow> Inl e
      | Inr records' \<Rightarrow> parse_lines MIN_YEAR ys records')"
  by (induction xs arbitrary: records) (simp_all split: sum.splits)

lemma stored_last_reading:
  assumes g: "group_records MIN_YEAR file_content = Inr records"
    and lines: "split_newline file_content = before @ line # after"
    and reading: "reads MIN_YEAR line d element v"
    and last: "\<And>l w. l \<in> set after \<Longrightarrow> \<not> reads MIN_YEAR l d element w"
  shows "stored d element v records"
proof -
  from g obtain r1 r2 where "parse_lines MIN_YEAR before [] = Inr r1"
    and here: "parse_line MIN_YEAR line r1 = Inr r2"
    and rest: "parse_lines MIN_YEAR after r2 = Inr records"
    unfolding group_records_def lines by (auto simp add: parse_lines_append split: sum.splits)
  have el: "element \<in> set elements"
    using reading by (rule readsE)
  have "stored d element v r2"
    using reading here by (rule stored_after_reading)
  with el last show ?thesis
    using rest by (rule stored_not_overwritten_lines)
qed

text \<open>
  C10. The rows that \<^verbatim>\<open>parse_dly_file\<close> returns have pairwise distinct dates, hence
  pairwise distinct keys (station, date). Readings for the same date and element resolve to
  the last one, for every file: if a line of the file holds a reading for a date and an
  element and no later line holds a reading for that date and element, then this reading
  is the value of the date's row, whatever earlier lines held.
\<close>

theorem one_row_per_date:
  assumes "parse_dly_file MIN_YEAR file_content station_id = Inr rows"
  shows "distinct (map row_date rows) \<and> distinct (map row_key rows)
     \<and> (split_newline file_content = before @ line # after
          \<and> reads MIN_YEAR line d element v
          \<and> (\<forall>l\<in>set after. \<forall>w. \<not> reads MIN_YEAR l d element w)
        \<longrightarrow> (element \<in> set [''TMAX'', ''TMIN''] \<longrightarrow> (\<exists>r\<in>set rows. row_date r = d))
          \<and> (\<forall>r\<in>set rows. row_date r = d \<longrightarrow>
               (element = ''TMAX'' \<longrightarrow> row_tmax r = Some (convert_value element v))
             \<and> (element = ''TMIN'' \<longrightarrow> row_tmin r = Some (convert_value element v))
             \<and> (element = ''PRCP'' \<longrightarrow> row_prcp r = Some v)
             \<and> (element = ''SNOW'' \<longrightarrow> row_snow r = Some v)))"
proof -
  from assms obtain records where g: "group_records MIN_YEAR file_content = Inr records"
    and rows: "rows = to_rows station_id records"
    by (rule parse_dly_file_rows)
  have dist: "distinct (map fst records)"
    using g by (rule distinct_group_records)
  have dates: "distinct (map row_date rows)"
    unfolding rows using dist by (rule distinct_row_dates)
  have last: "(element \<in> set [''TMAX'', ''TMIN''] \<longrightarrow> (\<exists>r\<in>set rows. row_date r = d))
      \<and> (\<forall>r\<in>set rows. row_date r = d \<longrightarrow>
           (element = ''TMAX'' \<longrightarrow> row_tmax r = Some (convert_value element v))
         \<and> (element = ''TMIN'' \<longrightarrow> row_tmin r = Some (convert_value element v))
         \<and> (element = ''PRCP'' \<longrightarrow> row_prcp r = Some v)
         \<and> (element = ''SNOW'' \<longrightarrow> row_snow r = Some v))"
    if h: "split_newline file_content = before @ line # after"
      "reads MIN_YEAR line d element v"
      "\<forall>l\<in>set after. \<forall>w. \<not> reads MIN_YEAR l d element w"
  proof -
    have "stored d element v records"
      using g h(1,2) by (rule stored_last_reading) (use h(3) in blast)
    then obtain data where data: "map_of records d = Some data"
      and val: "map_of data (lower element) = Some (convert_value element v)"
      by (auto simp add: stored_def)
    have temp: "has_temperature data" if "element \<in> set [''TMAX'', ''TMIN'']"
      using that val by (auto simp add: has_temperature_def lower_elements)
    have fields: "r = make_row station_id (d, data)" if "r \<in> set rows" "row_date r = d" for r
      using row_of_date [OF dist that(1) [unfolded rows]] that(2) data by auto
    have plain: "convert_value element v = v" if "element = ''PRCP'' \<or> element = ''SNOW''"
      using that by (auto simp add: convert_value_def)
    have vals: "row_tmax r = map_of data ''tmax'' \<and> row_tmin r = map_of data ''tmin''
        \<and> row_prcp r = map_of data ''prcp'' \<and> row_snow r = map_of data ''snow''"
      if "r \<in> set rows" "row_date r = d" for r
      unfolding fields [OF that] by (simp add: make_row_def)
    have some: "\<exists>r\<in>set rows. row_date r = d" if "element \<in> set [''TMAX'', ''TMIN'']"
      unfolding rows using data temp [OF that] by (rule row_exists)
    show ?thesis
      using some vals val plain by (auto simp add: lower_elements)
  qed
  show ?thesis
    using dates distinct_row_keys [OF dates] last by blast
qed

lemma terminated_file_lines:
  "split_newline terminated_file =
     [example_line tmax_header, example_line prcp_header, example_line snow_header,
      example_line tmax_again_header, []]"
proof -
  have content: "terminated_file =
      example_line tmax_header @ CHR 0x0A # example_line prcp_header @ CHR 0x0A #
      example_line snow_header @ CHR 0x0A # example_line tmax_again_header @ CHR 0x0A # []"
    unfolding terminated_file_def example_file_def by (simp only: append_assoc append_Cons append_Nil)
  show ?thesis
    unfolding split_newline_def content
    by (simp only: split_from_line example_lines_no_newline split_from.simps rev.simps append_Nil
        not_False_eq_True)
qed

lemma terminated_file_rows:
  "parse_dly_file 2000 terminated_file ''USW00001234'' = Inr [example_row]"
proof -
  have last: "parse_line 2000 [] records = Inr records" for records
    by (simp add: parse_line_def)
  have "group_records 2000 terminated_file =
      Inr (store_value (Date 2020 3 1) ''TMAX'' 200
            (store_value (Date 2020 4 1) ''SNOW'' 25
              (store_value (Date 2020 3 1) ''PRCP'' 10
                (store_value (Date 2020 3 1) ''TMAX'' 150 []))))"
    unfolding group_records_def terminated_file_lines
    by (simp only: parse_lines.simps example_tmax_line example_prcp_line example_snow_line
        example_tmax_again_line last sum.case)
  also have "\<dots> = Inr [(Date 2020 3 1, [(''tmax'', 680), (''prcp'', 10)]),
      (Date 2020 4 1, [(''snow'', 25)])]"
    by code_simp
  finally have records: "group_records 2000 terminated_file =
      Inr [(Date 2020 3 1, [(''tmax'', 680), (''prcp'', 10)]), (Date 2020 4 1, [(''snow'', 25)])]" .
  show ?thesis
    unfolding parse_dly_file_def records by code_simp
qed

lemma tmax_again_fields:
  "269 \<le> length (example_line tmax_again_header)"
  "py_int (slice 11 15 (example_line tmax_again_header)) = Inr 2020"
  "py_int (slice 15 17 (example_line tmax_again_header)) = Inr 3"
  "slice 17 21 (example_line tmax_again_header) = ''TMAX''"
  "value_str (example_line tmax_again_header) 1 \<noteq> ''-9999''"
  "py_int (value_str (example_line tmax_again_header) 1) = Inr 200"
  "py_date 2020 3 1 = Inr (Date 2020 3 1)"
  "convert_value ''TMAX'' 200 = 680"
  by code_simp+

lemma example_readings:
  "reads 2000 (example_line tmax_again_header) (Date 2020 3 1) ''TMAX'' 200"
  "reads 2000 (example_line prcp_header) (Date 2020 3 1) ''PRCP'' 10"
proof -
  have one: "(1::int) \<in> set (upto 1 31)"
    by simp
  have el: "''TMAX'' \<in> set elements" "''PRCP'' \<in> set elements"
    by (simp_all add: elements_def)
  show "reads 2000 (example_line tmax_again_header) (Date 2020 3 1) ''TMAX'' 200"
    using tmax_again_fields(1,2) _ tmax_again_fields(3,4) el(1) one tmax_again_fields(5,6,7)
    by (rule readsI) simp
  have prcp: "269 \<le> length (example_line prcp_header)"
    "py_int (slice 11 15 (example_line prcp_header)) = Inr 2020"
    "py_int (slice 15 17 (example_line prcp_header)) = Inr 3"
    "slice 17 21 (example_line prcp_header) = ''PRCP''"
    "value_str (example_line prcp_header) 1 \<noteq> ''-9999''"
    "py_int (value_str (example_line prcp_header) 1) = Inr 10"
    by code_simp+
  show "reads 2000 (example_line prcp_header) (Date 2020 3 1) ''PRCP'' 10"
    using prcp(1,2) _ prcp(3,4) el(2) one prcp(5,6) tmax_again_fields(7)
    by (rule readsI) simp
qed

lemma reads_element: "reads MIN_YEAR line d element v \<Longrightarrow> slice 17 21 line = element"
  by (erule readsE)

lemma example_no_later_reading:
  "\<not> reads 2000 [] d element w"
  "\<not> reads 2000 (example_line snow_header) d ''PRCP'' w"
  "\<not> reads 2000 (example_line tmax_again_header) d ''PRCP'' w"
proof -
  show "\<not> reads 2000 [] d element w"
    by (simp add: reads_def)
  have "slice 17 21 (example_line snow_header) = ''SNOW''"
    by code_simp
  then show "\<not> reads 2000 (example_line snow_header) d ''PRCP'' w"
    by (auto dest: reads_element)
  show "\<not> reads 2000 (example_line tmax_again_header) d ''PRCP'' w"
    using tmax_again_fields(4) by (auto dest: reads_element)
qed

theorem one_row_per_date_witness:
  "parse_dly_file 2000 terminated_file ''USW00001234'' = Inr [example_row]
   \<and> split_newline terminated_file =
       [example_line tmax_header, example_line prcp_header, example_line snow_header,
        example_line tmax_again_header, []]
   \<and> distinct (map row_date [example_row])
   \<and> row_date example_row = Date 2020 3 1
   \<and> row_tmax example_row = Some 680
   \<and> row_prcp example_row = Some 10"
proof -
  note th = one_row_per_date [OF terminated_file_rows]
  have a: "split_newline terminated_file =
      [example_line tmax_header, example_line prcp_header, example_line snow_header] @
      example_line tmax_again_header # [[]]"
    by (simp add: terminated_file_lines)
  have b: "split_newline terminated_file =
      [example_line tmax_header] @ example_line prcp_header #
      [example_line snow_header, example_line tmax_again_header, []]"
    by (simp add: terminated_file_lines)
  have after_a: "\<forall>l\<in>set [[]]. \<forall>w. \<not> reads 2000 l (Date 2020 3 1) ''TMAX'' w"
    by (simp add: example_no_later_reading)
  have after_b: "\<forall>l\<in>set [example_line snow_header, example_line tmax_again_header, []].
      \<forall>w. \<not> reads 2000 l (Date 2020 3 1) ''PRCP'' w"
    by (simp add: example_no_later_reading)
  have d: "row_date example_row = Date 2020 3 1"
    by (simp add: example_row_def)
  have c: "convert_value ''TMAX'' 200 = 680"
    by (rule tmax_again_fields)
  from th [THEN conjunct2, THEN conjunct2, rule_format, OF conjI [OF a conjI [OF example_readings(1) after_a]]]
  have tmax: "row_tmax example_row = Some 680"
    using d c by simp
  from th [THEN conjunct2, THEN conjunct2, rule_format, OF conjI [OF b conjI [OF example_readings(2) after_b]]]
  have prcp: "row_prcp example_row = Some 10"
    using d by simp
  show ?thesis
    using terminated_file_rows terminated_file_lines th [THEN conjunct1] d tmax prcp by simp
qed

subsection \<open>Decoding the station list\<close>

text \<open>
  C9. A station line whose latitude, longitude and (unless blank) elevation are read by
  \<^verbatim>\<open>float\<close> is decoded to the tuple of its identifier (columns 1 to 11), name (columns
  42 to 71), latitude, longitude and elevation, a blank elevation giving none, and the tuple
  is appended if and only if the identifier starts with US. The decoding does not depend on
  what was decoded before: the same line decoded twice gives the same tuple twice.
\<close>

theorem station_decoding:
  assumes "py_float (strip (slice 12 20 line)) = Inr lat"
    and "py_float (strip (slice 21 30 line)) = Inr lon"
    and "strip (slice 31 37 line) \<noteq> [] \<longrightarrow> py_float (strip (slice 31 37 line)) = Inr e"
  shows "decode_station_line py_float line stations =
       (if startswith (strip (slice 0 11 line)) ''US''
        then Inr (stations @ [(strip (slice 0 11 line), strip (slice 41 71 line), lat, lon,
                               if strip (slice 31 37 line) = [] then None else Some e)])
        else Inr stations)
     \<and> decode_stations py_float [line, line] stations =
       (if startswith (strip (slice 0 11 line)) ''US''
        then Inr (stations @
               [(strip (slice 0 11 line), strip (slice 41 71 line), lat, lon,
                 if strip (slice 31 37 line) = [] then None else Some e),
                (strip (slice 0 11 line), strip (slice 41 71 line), lat, lon,
                 if strip (slice 31 37 line) = [] then None else Some e)])
        else Inr stations)"
proof -
  have once: "decode_station_line py_float line s =
       (if startswith (strip (slice 0 11 line)) ''US''
        then Inr (s @ [(strip (slice 0 11 line), strip (slice 41 71 line), lat, lon,
                        if strip (slice 31 37 line) = [] then None else Some e)])
        else Inr s)" for s
    using assms by (simp add: decode_station_line_def Let_def)
  show ?thesis
    by (simp add: once)
qed

theorem station_decoding_witness:
  "decode_station_line float_literal us_station_line [] =
     Inr [(''USW00094728'', ''NEW YORK CNTRL PK TWR'', ''40.7789'', ''-73.9692'', Some ''39.6'')]
   \<and> decode_stations float_literal [us_station_line, us_station_line] [] =
     Inr [(''USW00094728'', ''NEW YORK CNTRL PK TWR'', ''40.7789'', ''-73.9692'', Some ''39.6''),
          (''USW00094728'', ''NEW YORK CNTRL PK TWR'', ''40.7789'', ''-73.9692'', Some ''39.6'')]
   \<and> decode_station_line float_literal us_station_line_no_elevation [] =
     Inr [(''US1CTFR0039'', ''NEW CANAAN 1.9 ENE'', ''41.1779'', ''-73.5074'', None)]
   \<and> decode_station_line float_literal ca_station_line [] = Inr []"
proof -
  have us: "float_literal (strip (slice 12 20 us_station_line)) = Inr ''40.7789''"
    "float_literal (strip (slice 21 30 us_station_line)) = Inr ''-73.9692''"
    "strip (slice 31 37 us_station_line) \<noteq> [] \<longrightarrow>
       float_literal (strip (slice 31 37 us_station_line)) = Inr ''39.6''"
    by code_simp+
  have us_fields: "startswith ''USW00094728'' ''US''"
    "strip (slice 0 11 us_station_line) = ''USW00094728''"
    "strip (slice 41 71 us_station_line) = ''NEW YORK CNTRL PK TWR''"
    "strip (slice 31 37 us_station_line) \<noteq> []"
    by code_simp+
  have ne: "float_literal (strip (slice 12 20 us_station_line_no_elevation)) = Inr ''41.1779''"
    "float_literal (strip (slice 21 30 us_station_line_no_elevation)) = Inr ''-73.5074''"
    "strip (slice 31 37 us_station_line_no_elevation) \<noteq> [] \<longrightarrow>
       float_literal (strip (slice 31 37 us_station_line_no_elevation)) = Inr []"
    by code_simp+
  have ne_fields: "startswith ''US1CTFR0039'' ''US''"
    "strip (slice 0 11 us_station_line_no_elevation) = ''US1CTFR0039''"
    "strip (slice 41 71 us_station_line_no_elevation) = ''NEW CANAAN 1.9 ENE''"
    "strip (slice 31 37 us_station_line_no_elevation) = []"
    by code_simp+
  have ca: "float_literal (strip (slice 12 20 ca_station_line)) = Inr ''48.4000''"
    "float_literal (strip (slice 21 30 ca_station_line)) = Inr ''-123.4833''"
    "strip (slice 31 37 ca_station_line) \<noteq> [] \<longrightarrow>
       float_literal (strip (slice 31 37 ca_station_line)) = Inr ''17.0''"
    by code_simp+
  have ca_fields: "\<not> startswith ''CA001010235'' ''US''"
    "strip (slice 0 11 ca_station_line) = ''CA001010235''"
    by code_simp+
  note rules = if_True if_False append_Nil simp_thms
  have a: "decode_station_line float_literal us_station_line [] =
      Inr [(''USW00094728'', ''NEW YORK CNTRL PK TWR'', ''40.7789'', ''-73.9692'', Some ''39.6'')]"
    using station_decoding [OF us, of "[]", THEN conjunct1]
    by (simp only: us_fields rules)
  have b: "decode_stations float_literal [us_station_line, us_station_line] [] =
      Inr [(''USW00094728'', ''NEW YORK CNTRL PK TWR'', ''40.7789'', ''-73.9692'', Some ''39.6''),
           (''USW00094728'', ''NEW YORK CNTRL PK TWR'', ''40.7789'', ''-73.9692'', Some ''39.6'')]"
    using station_decoding [OF us, of "[]", THEN conjunct2]
    by (simp only: us_fields rules)
  have c: "decode_station_line float_literal us_station_line_no_elevation [] =
      Inr [(''US1CTFR0039'', ''NEW CANAAN 1.9 ENE'', ''41.1779'', ''-73.5074'', None)]"
    using station_decoding [OF ne, of "[]", THEN conjunct1]
    by (simp only: ne_fields rules)
  have d: "decode_station_line float_literal ca_station_line [] = Inr []"
    using station_decoding [OF ca, of "[]", THEN conjunct1]
    by (simp only: ca_fields rules)
  show ?thesis
    by (intro conjI a b c d)
qed

subsection \<open>The upsert\<close>

lemma row_key_do_update: "row_key (do_update r x) = row_key x"
  by (simp add: do_update_def row_key_def)

lemma do_update_twice: "do_update r (do_update a x) = do_update r x"
  by (simp add: do_update_def)

lemma do_update_self: "do_update r r = r"
  by (simp add: do_update_def)

lemma row_key_conflict_update: "row_key (conflict_update r x) = row_key x"
  by (simp add: conflict_update_def row_key_do_update)

lemma do_update_conflict_update: "do_update r (conflict_update a x) = do_update r x"
  by (simp add: conflict_update_def do_update_twice)

lemma row_key_settle: "row_key (settle rs x) = row_key x"
  unfolding settle_def by (induction rs arbitrary: x) (simp_all add: row_key_conflict_update)

lemma do_update_settle: "do_update r (settle rs x) = do_update r x"
  unfolding settle_def
  by (induction rs arbitrary: x) (simp_all add: do_update_conflict_update)

lemma settle_snoc: "settle (rs @ [r]) x = conflict_update r (settle rs x)"
  by (simp add: settle_def)

lemma settle_Cons: "settle (r # rs) x = settle rs (conflict_update r x)"
  by (simp add: settle_def)

lemma conflict_update_other:
  assumes "row_key r \<notin> set (map row_key table)" and "x \<in> set table"
  shows "conflict_update r x = x"
proof -
  have "row_key x \<in> set (map row_key table)"
    using assms(2) by simp
  then have "row_key x \<noteq> row_key r"
    using assms(1) by metis
  then show ?thesis
    by (simp add: conflict_update_def)
qed

lemma upsert_row_present:
  assumes "row_key r \<in> set (map row_key table)" and "distinct (map row_key table)"
  shows "upsert_row r table = map (conflict_update r) table"
  using assms
proof (induction table)
  case Nil
  then show ?case by simp
next
  case (Cons x xs)
  show ?case
  proof (cases "row_key x = row_key r")
    case True
    then have "row_key r \<notin> set (map row_key xs)"
      using Cons.prems(2) by auto
    then have rest: "map (conflict_update r) xs = xs"
      by (intro map_idI conflict_update_other)
    have head: "conflict_update r x = do_update r x"
      using True by (simp add: conflict_update_def)
    show ?thesis
      using True by (simp add: head rest)
  next
    case False
    then show ?thesis
      using Cons by (auto simp add: conflict_update_def)
  qed
qed

lemma upsert_row_absent:
  "row_key r \<notin> set (map row_key table) \<Longrightarrow> upsert_row r table = table @ [r]"
  by (induction table) auto

lemma keys_upsert_row:
  "map row_key (upsert_row r table) =
     (if row_key r \<in> set (map row_key table) then map row_key table
      else map row_key table @ [row_key r])"
  by (induction table) (auto simp add: row_key_do_update)

lemma distinct_upsert_row:
  "distinct (map row_key table) \<Longrightarrow> distinct (map row_key (upsert_row r table))"
  by (simp add: keys_upsert_row)

lemma distinct_upsert_rows:
  "distinct (map row_key table) \<Longrightarrow> distinct (map row_key (fold upsert_row rs table))"
  by (induction rs arbitrary: table) (simp_all add: distinct_upsert_row)

lemma keys_upsert_rows:
  "set (map row_key (fold upsert_row rs table)) = set (map row_key table) \<union> set (map row_key rs)"
proof (induction rs arbitrary: table)
  case Nil
  then show ?case by simp
next
  case (Cons r rs)
  have "set (map row_key (upsert_row r table)) = insert (row_key r) (set (map row_key table))"
    unfolding keys_upsert_row by auto
  then show ?case
    using Cons [of "upsert_row r table"] by auto
qed

lemma upsert_conflicts_only:
  assumes "set (map row_key rs) \<subseteq> set (map row_key table)" and "distinct (map row_key table)"
  shows "fold upsert_row rs table = map (settle rs) table"
  using assms
proof (induction rs arbitrary: table)
  case Nil
  then show ?case by (simp add: settle_def)
next
  case (Cons r rs)
  have step: "upsert_row r table = map (conflict_update r) table"
    using Cons.prems by (intro upsert_row_present) auto
  have keys: "map row_key (map (conflict_update r) table) = map row_key table"
    by (simp add: row_key_conflict_update comp_def)
  have "fold upsert_row rs (map (conflict_update r) table) =
      map (settle rs) (map (conflict_update r) table)"
    using Cons.prems by (intro Cons.IH) (auto simp only: keys list.set list.map)
  then show ?case
    by (simp add: step settle_Cons comp_def)
qed

lemma upsert_keeps_positions:
  assumes "distinct (map row_key table)"
  shows "take (length table) (fold upsert_row rs table) = map (settle rs) table"
  using assms
proof (induction rs arbitrary: table)
  case Nil
  then show ?case by (simp add: settle_def)
next
  case (Cons r rs)
  show ?case
  proof (cases "row_key r \<in> set (map row_key table)")
    case True
    have step: "upsert_row r table = map (conflict_update r) table"
      using True Cons.prems by (rule upsert_row_present)
    have "distinct (map row_key (map (conflict_update r) table))"
      using Cons.prems by (simp add: row_key_conflict_update comp_def)
    from Cons.IH [OF this] show ?thesis
      by (simp add: step settle_Cons comp_def)
  next
    case False
    have step: "upsert_row r table = table @ [r]"
      using False by (rule upsert_row_absent)
    have "distinct (map row_key (table @ [r]))"
      using False Cons.prems by simp
    from Cons.IH [OF this]
    have "take (length table) (take (length (table @ [r])) (fold upsert_row rs (table @ [r]))) =
        take (length table) (map (settle rs) (table @ [r]))"
      by simp
    then have "take (length table) (fold upsert_row rs (table @ [r])) = map (settle rs) table"
      by simp
    moreover have "map (settle rs) table = map (settle (r # rs)) table"
      by (intro map_cong refl) (simp add: settle_Cons conflict_update_other [OF False])
    ultimately show ?thesis
      by (simp add: step)
  qed
qed

lemma settled_after_upsert:
  assumes "distinct (map row_key table)" and "x \<in> set (fold upsert_row rs table)"
  shows "settle rs x = x"
  using assms(2)
proof (induction rs arbitrary: x rule: rev_induct)
  case Nil
  then show ?case by (simp add: settle_def)
next
  case (snoc r rs)
  let ?mid = "fold upsert_row rs table"
  have dist: "distinct (map row_key ?mid)"
    using assms(1) by (rule distinct_upsert_rows)
  have x: "x \<in> set (upsert_row r ?mid)"
    using snoc.prems by simp
  show ?case
  proof (cases "row_key r \<in> set (map row_key ?mid)")
    case True
    with x dist obtain y where y: "y \<in> set ?mid" and xy: "x = conflict_update r y"
      by (auto simp add: upsert_row_present)
    show ?thesis
    proof (cases "row_key y = row_key r")
      case True
      then have "conflict_update r (settle rs x) = do_update r (settle rs x)"
        by (simp add: conflict_update_def row_key_settle xy row_key_conflict_update
            row_key_do_update)
      also have "\<dots> = x"
        using True by (simp add: do_update_settle xy conflict_update_def do_update_twice)
      finally show ?thesis
        by (simp add: settle_snoc)
    next
      case False
      then have "x = y"
        by (simp add: xy conflict_update_def)
      then show ?thesis
        using snoc.IH [OF y] False by (simp add: settle_snoc conflict_update_def)
    qed
  next
    case False
    then have "x \<in> set ?mid \<or> x = r"
      using x by (auto simp add: upsert_row_absent)
    then show ?thesis
    proof
      assume old: "x \<in> set ?mid"
      have "conflict_update r x = x"
        using False old by (rule conflict_update_other)
      then show ?thesis
        using snoc.IH [OF old] by (simp add: settle_snoc)
    next
      assume "x = r"
      then show ?thesis
        by (simp add: settle_snoc conflict_update_def row_key_settle do_update_settle do_update_self)
    qed
  qed
qed

lemma upsert_rows_idempotent:
  assumes "distinct (map row_key table)"
  shows "fold upsert_row rs (fold upsert_row rs table) = fold upsert_row rs table"
proof -
  let ?once = "fold upsert_row rs table"
  have "fold upsert_row rs ?once = map (settle rs) ?once"
    by (rule upsert_conflicts_only)
      (simp_all only: keys_upsert_rows distinct_upsert_rows [OF assms] Un_upper2)
  also have "\<dots> = ?once"
    by (intro map_idI settled_after_upsert [OF assms])
  finally show ?thesis .
qed

lemma settle_last_conflict:
  "settle rs x =
     (case find (\<lambda>r. row_key r = row_key x) (rev rs) of
        None \<Rightarrow> x
      | Some r \<Rightarrow> do_update r x)"
proof (induction rs rule: rev_induct)
  case Nil
  then show ?case by (simp add: settle_def)
next
  case (snoc r rs)
  show ?case
  proof (cases "row_key r = row_key x")
    case True
    then show ?thesis
      by (simp add: settle_snoc conflict_update_def row_key_settle do_update_settle)
  next
    case False
    then have "settle (rs @ [r]) x = settle rs x"
      by (simp add: settle_snoc conflict_update_def row_key_settle)
    then show ?thesis
      using snoc False by simp
  qed
qed

lemma paginate_empty: "paginate n [] = []"
  by (subst paginate.simps) simp

lemma paginate_step:
  "xs \<noteq> [] \<Longrightarrow> 0 < n \<Longrightarrow> paginate n xs = take n xs # paginate n (drop n xs)"
  by (subst paginate.simps) simp

lemma concat_paginate: "0 < n \<Longrightarrow> concat (paginate n xs) = xs"
proof (induction n xs rule: paginate.induct)
  case (1 page_size xs)
  show ?case
  proof (cases "xs = []")
    case True
    then show ?thesis by (simp add: paginate_empty)
  next
    case False
    then show ?thesis
      using 1 by (simp add: paginate_step)
  qed
qed

lemma pages_distinct:
  assumes "0 < n"
  shows "distinct (map f xs) \<Longrightarrow> p \<in> set (paginate n xs) \<Longrightarrow> distinct (map f p)"
  using assms
proof (induction n xs rule: paginate.induct)
  case (1 page_size xs)
  show ?case
  proof (cases "xs = []")
    case True
    then show ?thesis
      using "1.prems"(2) by (simp add: paginate_empty)
  next
    case False
    then have "p = take page_size xs \<or> p \<in> set (paginate page_size (drop page_size xs))"
      using "1.prems"(2,3) by (simp add: paginate_step)
    moreover have "distinct (map f (take page_size xs))"
      using "1.prems"(1) by (simp add: take_map [symmetric] distinct_take)
    moreover have "distinct (map f (drop page_size xs))"
      using "1.prems"(1) by (simp add: drop_map [symmetric] distinct_drop)
    ultimately show ?thesis
      using "1.IH" "1.prems"(3) False by blast
  qed
qed

lemma execute_values_result:
  "execute_values pages table =
     (if \<forall>p\<in>set pages. distinct (map row_key p)
      then Inr (fold upsert_row (concat pages) table) else Inl CardinalityViolation)"
  by (induction pages arbitrary: table) simp_all

lemma insert_batch_result:
  "insert_batch c records =
     (if \<forall>p\<in>set (paginate 100 records). distinct (map row_key p)
      then Inr \<lparr>weather_daily = fold upsert_row records (weather_daily c), commits = commits c + 1\<rparr>
      else Inl CardinalityViolation)"
  by (simp add: insert_batch_def execute_values_result concat_paginate)

lemma insert_batch_table:
  assumes "insert_batch c records = Inr c'"
  shows "weather_daily c' = fold upsert_row records (weather_daily c)"
    and "commits c' = commits c + 1"
    and "insert_batch d records =
      Inr \<lparr>weather_daily = fold upsert_row records (weather_daily d), commits = commits d + 1\<rparr>"
  using assms unfolding insert_batch_result by (auto split: if_splits)

text \<open>
  C8. When \<^verbatim>\<open>insert_batch\<close> accepts a batch, every row that was in the table is still at
  its place with its station, date, month and day unchanged; if rows of the batch conflict
  with it on the key, its tmax, tmin, prcp and snow are those of the last such row, and
  otherwise the row is unchanged.
\<close>

theorem conflict_overwrites_values:
  assumes "distinct (map row_key (weather_daily c))"
    and "insert_batch c records = Inr c'"
    and "i < length (weather_daily c)"
  shows "i < length (weather_daily c')
     \<and> row_station_id (weather_daily c' ! i) = row_station_id (weather_daily c ! i)
     \<and> row_date (weather_daily c' ! i) = row_date (weather_daily c ! i)
     \<and> row_month (weather_daily c' ! i) = row_month (weather_daily c ! i)
     \<and> row_day (weather_daily c' ! i) = row_day (weather_daily c ! i)
     \<and> weather_daily c' ! i =
         (case find (\<lambda>r. row_key r = row_key (weather_daily c ! i)) (rev records) of
            None \<Rightarrow> weather_daily c ! i
          | Some r \<Rightarrow> (weather_daily c ! i)\<lparr>row_tmax := row_tmax r, row_tmin := row_tmin r,
                         row_prcp := row_prcp r, row_snow := row_snow r\<rparr>)"
proof -
  let ?old = "weather_daily c" and ?new = "weather_daily c'"
  have new: "?new = fold upsert_row records ?old"
    using assms(2) by (rule insert_batch_table)
  have kept: "take (length ?old) ?new = map (settle records) ?old"
    unfolding new using assms(1) by (rule upsert_keeps_positions)
  then have "length (take (length ?old) ?new) = length ?old"
    by simp
  then have len: "i < length ?new"
    using assms(3) by simp
  have "?new ! i = take (length ?old) ?new ! i"
    using assms(3) by simp
  then have at: "?new ! i = settle records (?old ! i)"
    using assms(3) by (simp add: kept)
  have shape: "?new ! i =
      (case find (\<lambda>r. row_key r = row_key (?old ! i)) (rev records) of
         None \<Rightarrow> ?old ! i
       | Some r \<Rightarrow> (?old ! i)\<lparr>row_tmax := row_tmax r, row_tmin := row_tmin r,
                      row_prcp := row_prcp r, row_snow := row_snow r\<rparr>)"
    unfolding at settle_last_conflict do_update_def ..
  have frame: "row_station_id (?new ! i) = row_station_id (?old ! i)
      \<and> row_date (?new ! i) = row_date (?old ! i)
      \<and> row_month (?new ! i) = row_month (?old ! i)
      \<and> row_day (?new ! i) = row_day (?old ! i)"
    unfolding shape by (simp split: option.splits)
  show ?thesis
    using len frame shape by blast
qed

theorem conflict_overwrites_values_witness:
  "insert_batch \<lparr>weather_daily = [other_row, stale_row], commits = 0\<rparr> [example_row] =
       Inr \<lparr>weather_daily = [other_row, stale_row\<lparr>row_tmax := Some 680, row_tmin := None,
              row_prcp := Some 10, row_snow := None\<rparr>], commits = 1\<rparr>
   \<and> row_month ([other_row, stale_row\<lparr>row_tmax := Some 680, row_tmin := None,
              row_prcp := Some 10, row_snow := None\<rparr>] ! 1) = 0
   \<and> row_day ([other_row, stale_row\<lparr>row_tmax := Some 680, row_tmin := None,
              row_prcp := Some 10, row_snow := None\<rparr>] ! 1) = 0
   \<and> row_month example_row = 3"
proof -
  have d: "distinct (map row_key (weather_daily \<lparr>weather_daily = [other_row, stale_row], commits = 0\<rparr>))"
    by code_simp
  have first: "insert_batch \<lparr>weather_daily = [other_row, stale_row], commits = 0\<rparr> [example_row] =
      Inr \<lparr>weather_daily = [other_row, stale_row\<lparr>row_tmax := Some 680, row_tmin := None,
              row_prcp := Some 10, row_snow := None\<rparr>], commits = 1\<rparr>"
    by code_simp
  have i: "1 < length (weather_daily \<lparr>weather_daily = [other_row, stale_row], commits = 0\<rparr>)"
    by simp
  have m: "row_month stale_row = 0" "row_day stale_row = 0" "row_month example_row = 3"
    by code_simp+
  show ?thesis
    using first conflict_overwrites_values [OF d first i] m
    by simp
qed

subsection \<open>Buffering and flushing\<close>

lemma nonempty_by_length: "0 < length xs \<Longrightarrow> xs \<noteq> []"
  by auto

lemma empty_by_length: "length xs = 0 \<Longrightarrow> xs = []"
  by simp

lemma commits_insert_batch: "insert_batch c records = Inr c' \<Longrightarrow> commits c' = commits c + 1"
  by (rule insert_batch_table)

lemma buffer_records_cases:
  assumes "buffer_records BATCH_SIZE records s = Inr s'"
  shows "if records \<noteq> [] \<and> BATCH_SIZE \<le> length (batch s @ records)
         then insert_batch (st_conn s) (batch s @ records) = Inr (st_conn s') \<and> batch s' = []
         else st_conn s' = st_conn s \<and> batch s' = batch s @ records"
  using assms by (auto simp add: buffer_records_def split: if_splits sum.splits)

lemma insert_remaining_cases:
  assumes "insert_remaining s = Inr s'"
  shows "if batch s \<noteq> [] then insert_batch (st_conn s) (batch s) = Inr (st_conn s')
         else st_conn s' = st_conn s"
  using assms by (auto simp add: insert_remaining_def split: if_splits sum.splits)

lemma import_loop_Cons:
  assumes "import_loop BATCH_SIZE (records # rest) s = Inr s'"
  obtains mid where "buffer_records BATCH_SIZE records s = Inr mid"
    and "import_loop BATCH_SIZE rest mid = Inr s'"
  using assms by (auto split: sum.splits)

lemma import_loop_empty_members:
  "concat members = [] \<Longrightarrow> import_loop BATCH_SIZE members s = Inr s"
  by (induction members) (simp_all add: buffer_records_def)

lemma import_loop_below:
  assumes "length (batch s) + length (concat members) < BATCH_SIZE"
  shows "\<exists>s'. import_loop BATCH_SIZE members s = Inr s'
     \<and> st_conn s' = st_conn s \<and> batch s' = batch s @ concat members"
  using assms
proof (induction members arbitrary: s)
  case Nil
  then show ?case by simp
next
  case (Cons records rest)
  show ?case
  proof (cases "records = []")
    case True
    then have "buffer_records BATCH_SIZE records s = Inr s"
      by (simp add: buffer_records_def)
    then show ?thesis
      using Cons.IH [of s] Cons.prems True by simp
  next
    case False
    let ?mid = "s\<lparr>batch := batch s @ records, stations_processed := stations_processed s + 1\<rparr>"
    have step: "buffer_records BATCH_SIZE records s = Inr ?mid"
      using False Cons.prems by (simp add: buffer_records_def)
    have "length (batch ?mid) + length (concat rest) < BATCH_SIZE"
      using Cons.prems by simp
    from Cons.IH [OF this] show ?thesis
      by (simp add: step)
  qed
qed

lemma import_loop_exact:
  assumes "import_loop BATCH_SIZE members s = Inr s'"
    and "length (batch s) + length (concat members) = BATCH_SIZE"
    and "length (batch s) < BATCH_SIZE"
  shows "commits (st_conn s') = commits (st_conn s) + 1 \<and> batch s' = []"
  using assms
proof (induction members arbitrary: s)
  case Nil
  then show ?case by simp
next
  case (Cons records rest)
  from Cons.prems(1) obtain mid where step: "buffer_records BATCH_SIZE records s = Inr mid"
    and loop: "import_loop BATCH_SIZE rest mid = Inr s'"
    by (rule import_loop_Cons)
  note mid = buffer_records_cases [OF step]
  show ?case
  proof (cases "records \<noteq> [] \<and> BATCH_SIZE \<le> length (batch s @ records)")
    case True
    with mid have ins: "insert_batch (st_conn s) (batch s @ records) = Inr (st_conn mid)"
      and empty: "batch mid = []"
      by simp_all
    have flushed: "commits (st_conn mid) = commits (st_conn s) + 1" "batch mid = []"
      using commits_insert_batch [OF ins] empty by simp_all
    have "length (concat rest) = 0"
      using True Cons.prems(2) unfolding concat.simps length_append by linarith
    then have "concat rest = []"
      by (rule empty_by_length)
    then have "s' = mid"
      using loop by (simp add: import_loop_empty_members)
    then show ?thesis
      using flushed by simp
  next
    case False
    then have kept: "st_conn mid = st_conn s" "batch mid = batch s @ records"
      using mid by simp_all
    have "length (batch mid) + length (concat rest) = BATCH_SIZE"
      using Cons.prems(2) by (simp add: kept)
    moreover have "length (batch mid) < BATCH_SIZE"
      using False Cons.prems(3) by (auto simp add: kept)
    ultimately show ?thesis
      using Cons.IH [OF loop] by (simp add: kept)
  qed
qed

lemma finish_one_row:
  assumes "finish BATCH_SIZE members s = Inr s'" and "batch s = []"
    and "length (concat members) = 1" and "1 \<le> BATCH_SIZE"
  shows "commits (st_conn s') = commits (st_conn s) + 1"
proof -
  from assms(1) obtain mid where loop: "import_loop BATCH_SIZE members s = Inr mid"
    and last: "insert_remaining mid = Inr s'"
    by (auto simp add: finish_def split: sum.splits)
  show ?thesis
  proof (cases "BATCH_SIZE = 1")
    case True
    have "commits (st_conn mid) = commits (st_conn s) + 1 \<and> batch mid = []"
      using loop by (rule import_loop_exact) (simp_all add: assms True)
    then show ?thesis
      using insert_remaining_cases [OF last] by simp
  next
    case False
    then have "length (batch s) + length (concat members) < BATCH_SIZE"
      using assms by simp
    from import_loop_below [OF this] loop
    have "st_conn mid = st_conn s" "batch mid = concat members"
      by (simp_all add: assms(2))
    moreover have "concat members \<noteq> []"
      by (rule nonempty_by_length) (simp add: assms(3))
    ultimately have "insert_batch (st_conn s) (concat members) = Inr (st_conn s')"
      using insert_remaining_cases [OF last] by simp
    then show ?thesis
      by (rule commits_insert_batch)
  qed
qed

lemma finish_Cons:
  "finish BATCH_SIZE (records # rest) s =
     (case buffer_records BATCH_SIZE records s of
        Inl e \<Rightarrow> Inl e
      | Inr mid \<Rightarrow> finish BATCH_SIZE rest mid)"
  by (simp add: finish_def split: sum.splits)

lemma finish_empty_members:
  assumes "finish BATCH_SIZE members s = Inr s'" and "concat members = []" and "batch s = []"
  shows "st_conn s' = st_conn s"
proof -
  have "insert_remaining s = Inr s'"
    using assms(1) by (simp add: finish_def import_loop_empty_members [OF assms(2)])
  then show ?thesis
    using insert_remaining_cases [of s s'] assms(3) by simp
qed

lemma prefix_Cons:
  assumes "n < b"
  shows "(\<exists>k. n + length (concat (take k (r # rs))) = b) \<longleftrightarrow>
     (\<exists>k. n + length r + length (concat (take k rs)) = b)"
proof
  assume "\<exists>k. n + length (concat (take k (r # rs))) = b"
  then obtain k where k: "n + length (concat (take k (r # rs))) = b" ..
  show "\<exists>k. n + length r + length (concat (take k rs)) = b"
  proof (cases k)
    case 0
    then show ?thesis using k assms by simp
  next
    case (Suc j)
    then have "n + length r + length (concat (take j rs)) = b"
      using k by simp
    then show ?thesis ..
  qed
next
  assume "\<exists>k. n + length r + length (concat (take k rs)) = b"
  then obtain k where "n + length r + length (concat (take k rs)) = b" ..
  then have "n + length (concat (take (Suc k) (r # rs))) = b"
    by simp
  then show "\<exists>k. n + length (concat (take k (r # rs))) = b" ..
qed

lemma finish_one_over:
  assumes "finish BATCH_SIZE members s = Inr s'"
    and "length (batch s) + length (concat members) = BATCH_SIZE + 1"
    and "length (batch s) < BATCH_SIZE"
  shows "commits (st_conn s') = commits (st_conn s) +
     (if \<exists>k. length (batch s) + length (concat (take k members)) = BATCH_SIZE then 2 else 1)"
  using assms
proof (induction members arbitrary: s)
  case Nil
  then show ?case by simp
next
  case (Cons records rest)
  from Cons.prems(1) obtain mid where step: "buffer_records BATCH_SIZE records s = Inr mid"
    and rest: "finish BATCH_SIZE rest mid = Inr s'"
    by (auto simp add: finish_Cons split: sum.splits)
  note mid = buffer_records_cases [OF step]
  have total: "length (batch s) + length records + length (concat rest) = BATCH_SIZE + 1"
    using Cons.prems(2) by simp
  note pre = prefix_Cons [OF Cons.prems(3), of records rest]
  show ?case
  proof (cases "records \<noteq> [] \<and> BATCH_SIZE \<le> length (batch s @ records)")
    case True
    with mid have ins: "insert_batch (st_conn s) (batch s @ records) = Inr (st_conn mid)"
      and empty: "batch mid = []"
      by simp_all
    have flushed: "commits (st_conn mid) = commits (st_conn s) + 1"
      using ins by (rule commits_insert_batch)
    show ?thesis
    proof (cases "length (batch s) + length records = BATCH_SIZE")
      case exact: True
      then have "length (concat rest) = 1"
        using total by linarith
      from finish_one_row [OF rest empty this] Cons.prems(3)
      have "commits (st_conn s') = commits (st_conn s) + 2"
        using flushed by simp
      moreover have "\<exists>k. length (batch s) + length records + length (concat (take k rest)) = BATCH_SIZE"
        using exact by (intro exI [of _ 0]) simp
      ultimately show ?thesis
        by (simp only: pre if_True)
    next
      case over: False
      then have more: "BATCH_SIZE < length (batch s) + length records"
        using True by (simp only: length_append) linarith
      then have "length (concat rest) = 0"
        using total by linarith
      then have "concat rest = []"
        by (rule empty_by_length)
      from finish_empty_members [OF rest this empty]
      have "commits (st_conn s') = commits (st_conn s) + 1"
        using flushed by simp
      moreover have "\<not> (\<exists>k. length (batch s) + length records + length (concat (take k rest)) = BATCH_SIZE)"
        using more by (intro notI) (elim exE, linarith)
      ultimately show ?thesis
        by (simp only: pre if_False)
    qed
  next
    case False
    then have kept: "st_conn mid = st_conn s" "batch mid = batch s @ records"
      using mid by simp_all
    have below: "length (batch mid) < BATCH_SIZE"
      using False Cons.prems(3) by (auto simp add: kept)
    have "length (batch mid) + length (concat rest) = BATCH_SIZE + 1"
      using total by (simp add: kept)
    from Cons.IH [OF rest this below] show ?thesis
      by (simp only: pre kept length_append)
  qed
qed

lemma finish_threshold_zero:
  assumes "finish 0 members s = Inr s'" and "batch s = []" and "length (concat members) = 1"
  shows "commits (st_conn s') = commits (st_conn s) + 1"
  using assms
proof (induction members arbitrary: s)
  case Nil
  then show ?case by simp
next
  case (Cons records rest)
  from Cons.prems(1) obtain mid where step: "buffer_records 0 records s = Inr mid"
    and rest: "finish 0 rest mid = Inr s'"
    by (auto simp add: finish_Cons split: sum.splits)
  note mid = buffer_records_cases [OF step]
  show ?case
  proof (cases "records = []")
    case True
    then have "st_conn mid = st_conn s" "batch mid = []"
      using mid Cons.prems(2) by simp_all
    moreover have "length (concat rest) = 1"
      using Cons.prems(3) True by simp
    ultimately show ?thesis
      using Cons.IH [OF rest] by simp
  next
    case False
    then have ins: "insert_batch (st_conn s) (batch s @ records) = Inr (st_conn mid)"
      and empty: "batch mid = []"
      using mid by simp_all
    have "0 < length records"
      using False by simp
    then have "length (concat rest) = 0"
      using Cons.prems(3) unfolding concat.simps length_append by linarith
    then have "concat rest = []"
      by (rule empty_by_length)
    from finish_empty_members [OF rest this empty] commits_insert_batch [OF ins]
    show ?thesis by simp
  qed
qed

text \<open>
  C2, as the code has it. After the rows of a member have been appended to the buffer, the
  buffer is flushed (one call of \<^verbatim>\<open>insert_batch\<close> with the whole buffer, then the buffer
  is cleared) exactly when the member had rows and the buffer now holds at least
  \<open>BATCH_SIZE\<close> rows, so a flushed batch can hold more than \<open>BATCH_SIZE\<close> rows; at the end
  a buffer that is not empty is flushed once. In a run that completes, the number of
  flushes is 1 for \<open>BATCH_SIZE - 1\<close> rows in all (\<open>BATCH_SIZE \<ge> 2\<close>) and 1 for \<open>BATCH_SIZE\<close>
  rows in all (\<open>BATCH_SIZE \<ge> 1\<close>); for \<open>BATCH_SIZE + 1\<close> rows in all it is 2 when
  \<open>BATCH_SIZE \<ge> 1\<close> and some initial run of members holds exactly \<open>BATCH_SIZE\<close> rows, and 1
  otherwise; with no rows at all there is no flush.
\<close>

theorem batch_flushes:
  assumes "import_weather_data BATCH_SIZE c members = Inr st"
  shows "(length (concat members) + 1 = BATCH_SIZE \<and> 2 \<le> BATCH_SIZE \<longrightarrow>
            commits (st_conn st) = commits c + 1)
     \<and> (length (concat members) = BATCH_SIZE \<and> 1 \<le> BATCH_SIZE \<longrightarrow>
            commits (st_conn st) = commits c + 1)
     \<and> (length (concat members) = BATCH_SIZE + 1 \<longrightarrow>
            commits (st_conn st) = commits c +
              (if 1 \<le> BATCH_SIZE \<and> (\<exists>k. length (concat (take k members)) = BATCH_SIZE)
               then 2 else 1))
     \<and> (length (concat members) = 0 \<longrightarrow> commits (st_conn st) = commits c)
     \<and> (buffer_records BATCH_SIZE records s = Inr s' \<longrightarrow>
          (if records \<noteq> [] \<and> BATCH_SIZE \<le> length (batch s @ records)
           then insert_batch (st_conn s) (batch s @ records) = Inr (st_conn s') \<and> batch s' = []
           else st_conn s' = st_conn s \<and> batch s' = batch s @ records))
     \<and> (insert_remaining s = Inr s' \<longrightarrow>
          (if batch s \<noteq> [] then insert_batch (st_conn s) (batch s) = Inr (st_conn s')
           else st_conn s' = st_conn s))"
proof -
  let ?start = "\<lparr>st_conn = c, batch = [], total_records = 0, stations_processed = 0\<rparr>"
  have fin: "finish BATCH_SIZE members ?start = Inr st"
    using assms by (simp add: import_weather_data_def finish_def)
  then obtain mid where loop: "import_loop BATCH_SIZE members ?start = Inr mid"
    and last: "insert_remaining mid = Inr st"
    by (auto simp add: finish_def split: sum.splits)
  have under: "commits (st_conn st) = commits c + 1"
    if "length (concat members) + 1 = BATCH_SIZE" "2 \<le> BATCH_SIZE"
  proof -
    have "length (batch ?start) + length (concat members) < BATCH_SIZE"
      using that by simp
    from import_loop_below [OF this] loop
    have "st_conn mid = c" "batch mid = concat members"
      by simp_all
    moreover have "concat members \<noteq> []"
      by (rule nonempty_by_length) (use that in linarith)
    ultimately have "insert_batch c (concat members) = Inr (st_conn st)"
      using insert_remaining_cases [OF last] by simp
    then show ?thesis
      by (rule commits_insert_batch)
  qed
  have exact: "commits (st_conn st) = commits c + 1"
    if "length (concat members) = BATCH_SIZE" "1 \<le> BATCH_SIZE"
  proof -
    have "commits (st_conn mid) = commits (st_conn ?start) + 1 \<and> batch mid = []"
      using loop by (rule import_loop_exact) (use that in simp_all)
    then show ?thesis
      using insert_remaining_cases [OF last] by simp
  qed
  have over: "commits (st_conn st) = commits c +
      (if 1 \<le> BATCH_SIZE \<and> (\<exists>k. length (concat (take k members)) = BATCH_SIZE)
       then 2 else 1)"
    if total: "length (concat members) = BATCH_SIZE + 1"
  proof (cases "1 \<le> BATCH_SIZE")
    case True
    then show ?thesis
      using finish_one_over [OF fin] total by simp
  next
    case False
    then have zero: "BATCH_SIZE = 0"
      by simp
    have "commits (st_conn st) = commits (st_conn ?start) + 1"
      using fin [unfolded zero] by (rule finish_threshold_zero) (use total zero in simp_all)
    then show ?thesis
      using False by simp
  qed
  have none: "commits (st_conn st) = commits c" if "length (concat members) = 0"
  proof -
    have "concat members = []"
      using that by (rule empty_by_length)
    from finish_empty_members [OF fin this] show ?thesis
      by simp
  qed
  show ?thesis
    using under exact over none buffer_records_cases [of BATCH_SIZE records s s']
      insert_remaining_cases [of s s']
    by (intro conjI impI) blast+
qed

theorem batch_flushes_witness:
  "(\<exists>st. import_weather_data 2 \<lparr>weather_daily = [], commits = 0\<rparr> [[third_row]] = Inr st
        \<and> commits (st_conn st) = 1)
   \<and> (\<exists>st. import_weather_data 2 \<lparr>weather_daily = [], commits = 0\<rparr>
               [[third_row], [example_row]] = Inr st
        \<and> commits (st_conn st) = 1)
   \<and> (\<exists>st. import_weather_data 2 \<lparr>weather_daily = [], commits = 0\<rparr>
               [[third_row], [example_row], [other_row]] = Inr st
        \<and> commits (st_conn st) = 2)
   \<and> (\<exists>st. import_weather_data 0 \<lparr>weather_daily = [], commits = 0\<rparr> [[third_row]] = Inr st
        \<and> commits (st_conn st) = 1)
   \<and> (\<exists>st. import_weather_data 2 \<lparr>weather_daily = [], commits = 0\<rparr> [[]] = Inr st
        \<and> commits (st_conn st) = 0)"
proof -
  let ?c = "\<lparr>weather_daily = [], commits = 0\<rparr>"
  have one: "import_weather_data 2 ?c [[third_row]] =
      Inr \<lparr>st_conn = \<lparr>weather_daily = [third_row], commits = 1\<rparr>, batch = [third_row],
           total_records = 1, stations_processed = 1\<rparr>"
    by code_simp
  have two: "import_weather_data 2 ?c [[third_row], [example_row]] =
      Inr \<lparr>st_conn = \<lparr>weather_daily = [third_row, example_row], commits = 1\<rparr>, batch = [],
           total_records = 2, stations_processed = 2\<rparr>"
    by code_simp
  have three: "import_weather_data 2 ?c [[third_row], [example_row], [other_row]] =
      Inr \<lparr>st_conn = \<lparr>weather_daily = [third_row, example_row, other_row], commits = 2\<rparr>,
           batch = [other_row], total_records = 3, stations_processed = 3\<rparr>"
    by code_simp
  have prefix: "\<exists>k. length (concat (take k [[third_row], [example_row], [other_row]])) = 2"
    by (rule exI [of _ 2]) simp
  have a: "commits (st_conn \<lparr>st_conn = \<lparr>weather_daily = [third_row], commits = 1\<rparr>,
      batch = [third_row], total_records = 1, stations_processed = 1\<rparr>) = commits ?c + 1"
    by (rule mp [OF batch_flushes [OF one, THEN conjunct1]]) simp
  have b: "commits (st_conn \<lparr>st_conn = \<lparr>weather_daily = [third_row, example_row], commits = 1\<rparr>,
      batch = [], total_records = 2, stations_processed = 2\<rparr>) = commits ?c + 1"
    by (rule mp [OF batch_flushes [OF two, THEN conjunct2, THEN conjunct1]]) simp
  have c: "commits (st_conn \<lparr>st_conn =
      \<lparr>weather_daily = [third_row, example_row, other_row], commits = 2\<rparr>,
      batch = [other_row], total_records = 3, stations_processed = 3\<rparr>) = commits ?c + 2"
    using batch_flushes [OF three, THEN conjunct2, THEN conjunct2, THEN conjunct1] prefix
    by simp
  have zero: "import_weather_data 0 ?c [[third_row]] =
      Inr \<lparr>st_conn = \<lparr>weather_daily = [third_row], commits = 1\<rparr>, batch = [],
           total_records = 1, stations_processed = 1\<rparr>"
    by code_simp
  have empty: "import_weather_data 2 ?c [[]] =
      Inr \<lparr>st_conn = ?c, batch = [], total_records = 0, stations_processed = 0\<rparr>"
    by code_simp
  have d: "commits (st_conn \<lparr>st_conn = \<lparr>weather_daily = [third_row], commits = 1\<rparr>,
      batch = [], total_records = 1, stations_processed = 1\<rparr>) = commits ?c + 1"
    using batch_flushes [OF zero, THEN conjunct2, THEN conjunct2, THEN conjunct1] by simp
  have e: "commits (st_conn \<lparr>st_conn = ?c, batch = [], total_records = 0,
      stations_processed = 0\<rparr>) = commits ?c"
    by (rule mp [OF batch_flushes [OF empty, THEN conjunct2, THEN conjunct2, THEN conjunct2,
        THEN conjunct1]]) simp
  show ?thesis
    using one two three zero empty a b c d e by simp
qed

theorem batch_flushes_counterexample:
  "length (concat [[third_row], [example_row, other_row]]) = 2 + 1
   \<and> import_weather_data 2 \<lparr>weather_daily = [], commits = 0\<rparr>
        [[third_row], [example_row, other_row]] =
      Inr \<lparr>st_conn = \<lparr>weather_daily = [third_row, example_row, other_row], commits = 1\<rparr>,
           batch = [], total_records = 3, stations_processed = 2\<rparr>"
  by code_simp

subsection \<open>Running the import again\<close>

lemma buffer_records_elsewhere:
  assumes "buffer_records BATCH_SIZE records s = Inr mid" and "batch t = batch s"
  shows "\<exists>mid'. buffer_records BATCH_SIZE records t = Inr mid' \<and> batch mid' = batch mid
     \<and> fold upsert_row (batch mid') (weather_daily (st_conn mid')) =
         fold upsert_row (batch t @ records) (weather_daily (st_conn t))"
proof (cases "records \<noteq> [] \<and> BATCH_SIZE \<le> length (batch s @ records)")
  case True
  with buffer_records_cases [OF assms(1)]
  have ins: "insert_batch (st_conn s) (batch s @ records) = Inr (st_conn mid)"
    and empty: "batch mid = []"
    by simp_all
  note there = insert_batch_table(3) [OF ins, of "st_conn t"]
  show ?thesis
    using True by (simp add: buffer_records_def assms(2) there empty)
next
  case False
  with buffer_records_cases [OF assms(1)] have "batch mid = batch s @ records"
    by simp
  then show ?thesis
    using False by (auto simp add: buffer_records_def assms(2))
qed

lemma import_loop_elsewhere:
  assumes "import_loop BATCH_SIZE members s = Inr s'" and "batch t = batch s"
  shows "\<exists>t'. import_loop BATCH_SIZE members t = Inr t' \<and> batch t' = batch s'
     \<and> fold upsert_row (batch t') (weather_daily (st_conn t')) =
         fold upsert_row (batch t @ concat members) (weather_daily (st_conn t))"
  using assms
proof (induction members arbitrary: s t)
  case Nil
  then show ?case by simp
next
  case (Cons records rest)
  from Cons.prems(1) obtain mid where step: "buffer_records BATCH_SIZE records s = Inr mid"
    and loop: "import_loop BATCH_SIZE rest mid = Inr s'"
    by (rule import_loop_Cons)
  from buffer_records_elsewhere [OF step Cons.prems(2)]
  obtain mid' where step': "buffer_records BATCH_SIZE records t = Inr mid'"
    and same: "batch mid' = batch mid"
    and table: "fold upsert_row (batch mid') (weather_daily (st_conn mid')) =
      fold upsert_row (batch t @ records) (weather_daily (st_conn t))"
    by blast
  from Cons.IH [OF loop same]
  obtain t' where loop': "import_loop BATCH_SIZE rest mid' = Inr t'"
    and same': "batch t' = batch s'"
    and table': "fold upsert_row (batch t') (weather_daily (st_conn t')) =
      fold upsert_row (batch mid' @ concat rest) (weather_daily (st_conn mid'))"
    by blast
  have "fold upsert_row (batch t') (weather_daily (st_conn t')) =
      fold upsert_row (batch t @ concat (records # rest)) (weather_daily (st_conn t))"
    using table by (simp add: table')
  then show ?case
    using loop' same' by (simp add: step')
qed

lemma insert_remaining_elsewhere:
  assumes "insert_remaining s = Inr s'" and "batch t = batch s"
  shows "\<exists>t'. insert_remaining t = Inr t'
     \<and> weather_daily (st_conn t') = fold upsert_row (batch t) (weather_daily (st_conn t))"
proof (cases "batch s = []")
  case True
  then show ?thesis
    by (simp add: insert_remaining_def assms(2))
next
  case False
  with insert_remaining_cases [OF assms(1)]
  have "insert_batch (st_conn s) (batch s) = Inr (st_conn s')"
    by simp
  note there = insert_batch_table(3) [OF this, of "st_conn t"]
  show ?thesis
    using False by (simp add: insert_remaining_def assms(2) there)
qed

lemma import_weather_data_elsewhere:
  assumes "import_weather_data BATCH_SIZE c members = Inr st"
  shows "\<exists>st'. import_weather_data BATCH_SIZE d members = Inr st'
     \<and> weather_daily (st_conn st') = fold upsert_row (concat members) (weather_daily d)"
proof -
  let ?start = "\<lambda>c. \<lparr>st_conn = c, batch = [], total_records = 0, stations_processed = 0\<rparr>"
  from assms obtain mid where loop: "import_loop BATCH_SIZE members (?start c) = Inr mid"
    and last: "insert_remaining mid = Inr st"
    by (auto simp add: import_weather_data_def split: sum.splits)
  from import_loop_elsewhere [OF loop, of "?start d"]
  obtain mid' where loop': "import_loop BATCH_SIZE members (?start d) = Inr mid'"
    and same: "batch mid' = batch mid"
    and table: "fold upsert_row (batch mid') (weather_daily (st_conn mid')) =
      fold upsert_row (concat members) (weather_daily d)"
    by auto
  from insert_remaining_elsewhere [OF last same]
  obtain st' where "insert_remaining mid' = Inr st'"
    and "weather_daily (st_conn st') = fold upsert_row (batch mid') (weather_daily (st_conn mid'))"
    by blast
  then show ?thesis
    by (simp add: import_weather_data_def loop' table)
qed

lemma import_weather_data_table:
  assumes "import_weather_data BATCH_SIZE c members = Inr st"
  shows "weather_daily (st_conn st) = fold upsert_row (concat members) (weather_daily c)"
  using import_weather_data_elsewhere [OF assms, of c] assms by auto

lemma insert_batch_row_at:
  assumes "distinct (map row_key (weather_daily c))"
    and "insert_batch c records = Inr c'"
    and "i < length (weather_daily c)"
  shows "weather_daily c' ! i =
     (case find (\<lambda>r. row_key r = row_key (weather_daily c ! i)) (rev records) of
        None \<Rightarrow> weather_daily c ! i
      | Some r \<Rightarrow> (weather_daily c ! i)\<lparr>row_tmax := row_tmax r,
          row_tmin := row_tmin r, row_prcp := row_prcp r, row_snow := row_snow r\<rparr>)"
proof -
  let ?old = "weather_daily c" and ?new = "weather_daily c'"
  have new: "?new = fold upsert_row records ?old"
    using assms(2) by (rule insert_batch_table)
  have kept: "take (length ?old) ?new = map (settle records) ?old"
    unfolding new using assms(1) by (rule upsert_keeps_positions)
  have "?new ! i = take (length ?old) ?new ! i"
    using assms(3) by simp
  then have at: "?new ! i = settle records (?old ! i)"
    using assms(3) by (simp add: kept)
  show ?thesis
    unfolding at settle_last_conflict do_update_def ..
qed

text \<open>
  C3. On a table whose keys (station_id, date) are distinct, \<^verbatim>\<open>insert_batch\<close> accepts
  every batch whose keys are distinct. Whenever it accepts a batch, every row that was in
  the table stays at its place, with its tmax, tmin, prcp and snow overwritten by those of
  the last row of the batch that conflicts with it on the key (and unchanged if there is
  none); the keys of the table stay distinct, and they are the old keys and the keys of the
  batch, so a conflicting row has overwritten and not added a row; and inserting the same
  batch again is accepted and leaves the table as the first insertion left it. A completed
  run of the import, run again on the same members from the table it left, completes and
  leaves the same table.
\<close>

theorem upsert_idempotent:
  assumes "distinct (map row_key (weather_daily c))"
  shows "(distinct (map row_key records) \<longrightarrow> (\<exists>c1. insert_batch c records = Inr c1))
     \<and> (insert_batch c records = Inr c1 \<longrightarrow>
          (\<exists>c2. insert_batch c1 records = Inr c2 \<and> weather_daily c2 = weather_daily c1)
          \<and> distinct (map row_key (weather_daily c1))
          \<and> set (map row_key (weather_daily c1)) =
              set (map row_key (weather_daily c)) \<union> set (map row_key records)
          \<and> (i < length (weather_daily c) \<longrightarrow>
               weather_daily c1 ! i =
                 (case find (\<lambda>r. row_key r = row_key (weather_daily c ! i)) (rev records) of
                    None \<Rightarrow> weather_daily c ! i
                  | Some r \<Rightarrow> (weather_daily c ! i)\<lparr>row_tmax := row_tmax r,
                      row_tmin := row_tmin r, row_prcp := row_prcp r, row_snow := row_snow r\<rparr>)))
     \<and> (import_weather_data BATCH_SIZE c members = Inr st \<longrightarrow>
          (\<exists>st2. import_weather_data BATCH_SIZE (st_conn st) members = Inr st2
             \<and> weather_daily (st_conn st2) = weather_daily (st_conn st))
          \<and> distinct (map row_key (weather_daily (st_conn st))))"
proof -
  have total: "\<exists>c1. insert_batch c records = Inr c1" if "distinct (map row_key records)"
    unfolding insert_batch_result using pages_distinct [OF _ that, of 100] by simp
  have over: "weather_daily c1 ! i =
      (case find (\<lambda>r. row_key r = row_key (weather_daily c ! i)) (rev records) of
         None \<Rightarrow> weather_daily c ! i
       | Some r \<Rightarrow> (weather_daily c ! i)\<lparr>row_tmax := row_tmax r,
           row_tmin := row_tmin r, row_prcp := row_prcp r, row_snow := row_snow r\<rparr>)"
    if "insert_batch c records = Inr c1" "i < length (weather_daily c)"
    using assms that by (rule insert_batch_row_at)
  have twice: "(\<exists>c2. insert_batch c1 records = Inr c2 \<and> weather_daily c2 = weather_daily c1)
      \<and> distinct (map row_key (weather_daily c1))
      \<and> set (map row_key (weather_daily c1)) =
          set (map row_key (weather_daily c)) \<union> set (map row_key records)"
    if first: "insert_batch c records = Inr c1"
  proof -
    note t = insert_batch_table [OF first]
    have "weather_daily \<lparr>weather_daily = fold upsert_row records (weather_daily c1),
        commits = commits c1 + 1\<rparr> = weather_daily c1"
      by (simp add: t(1) upsert_rows_idempotent [OF assms])
    then show ?thesis
      using t(3) [of c1] by (simp only: t(1) distinct_upsert_rows [OF assms] keys_upsert_rows) blast
  qed
  have rerun: "(\<exists>st2. import_weather_data BATCH_SIZE (st_conn st) members = Inr st2
        \<and> weather_daily (st_conn st2) = weather_daily (st_conn st))
      \<and> distinct (map row_key (weather_daily (st_conn st)))"
    if run: "import_weather_data BATCH_SIZE c members = Inr st"
  proof -
    note table = import_weather_data_table [OF run]
    from import_weather_data_elsewhere [OF run, of "st_conn st"]
    obtain st2 where again: "import_weather_data BATCH_SIZE (st_conn st) members = Inr st2"
      and "weather_daily (st_conn st2) = fold upsert_row (concat members) (weather_daily (st_conn st))"
      by blast
    then have "weather_daily (st_conn st2) = weather_daily (st_conn st)"
      by (simp add: table upsert_rows_idempotent [OF assms])
    then show ?thesis
      using again by (auto simp add: table distinct_upsert_rows [OF assms])
  qed
  show ?thesis
    using total twice over rerun by blast
qed

theorem upsert_idempotent_witness:
  "distinct (map row_key [stored_row, other_row])
   \<and> insert_batch \<lparr>weather_daily = [stored_row, other_row], commits = 0\<rparr> [example_row] =
       Inr \<lparr>weather_daily = [example_row, other_row], commits = 1\<rparr>
   \<and> (\<exists>c2. insert_batch \<lparr>weather_daily = [example_row, other_row], commits = 1\<rparr> [example_row] = Inr c2
          \<and> weather_daily c2 = [example_row, other_row])
   \<and> distinct (map row_key [example_row, other_row])
   \<and> [example_row, other_row] ! 0 =
       stored_row\<lparr>row_tmax := Some 680, row_tmin := None, row_prcp := Some 10, row_snow := None\<rparr>
   \<and> (\<exists>st2. import_weather_data 2 \<lparr>weather_daily = [third_row, example_row, other_row], commits = 2\<rparr>
                [[third_row], [example_row], [other_row]] = Inr st2
          \<and> weather_daily (st_conn st2) = [third_row, example_row, other_row])"
proof -
  have d: "distinct (map row_key (weather_daily \<lparr>weather_daily = [stored_row, other_row], commits = 0\<rparr>))"
    by code_simp
  have first: "insert_batch \<lparr>weather_daily = [stored_row, other_row], commits = 0\<rparr> [example_row] =
      Inr \<lparr>weather_daily = [example_row, other_row], commits = 1\<rparr>"
    by code_simp
  have e: "distinct (map row_key (weather_daily \<lparr>weather_daily = [], commits = 0\<rparr>))"
    by simp
  have run: "import_weather_data 2 \<lparr>weather_daily = [], commits = 0\<rparr>
        [[third_row], [example_row], [other_row]] =
      Inr \<lparr>st_conn = \<lparr>weather_daily = [third_row, example_row, other_row], commits = 2\<rparr>,
           batch = [other_row], total_records = 3, stations_processed = 3\<rparr>"
    by code_simp
  have single: "(\<exists>c2. insert_batch \<lparr>weather_daily = [example_row, other_row], commits = 1\<rparr>
          [example_row] = Inr c2 \<and> weather_daily c2 = [example_row, other_row])
      \<and> distinct (map row_key [example_row, other_row])"
    using first
      upsert_idempotent [OF d, where records = "[example_row]"
        and ?c1.0 = "\<lparr>weather_daily = [example_row, other_row], commits = 1\<rparr>"]
    by simp
  have key: "row_key example_row = row_key stored_row"
    by code_simp
  have vals: "row_tmax example_row = Some 680" "row_tmin example_row = None"
    "row_prcp example_row = Some 10" "row_snow example_row = None"
    by code_simp+
  have written: "[example_row, other_row] ! 0 =
      stored_row\<lparr>row_tmax := Some 680, row_tmin := None, row_prcp := Some 10, row_snow := None\<rparr>"
    using first
      upsert_idempotent [OF d, where records = "[example_row]"
        and ?c1.0 = "\<lparr>weather_daily = [example_row, other_row], commits = 1\<rparr>" and i = 0]
    by (simp add: key vals)
  have again: "\<exists>st2. import_weather_data 2
        \<lparr>weather_daily = [third_row, example_row, other_row], commits = 2\<rparr>
        [[third_row], [example_row], [other_row]] = Inr st2
      \<and> weather_daily (st_conn st2) = [third_row, example_row, other_row]"
    using run
      upsert_idempotent [OF e, where BATCH_SIZE = 2
        and members = "[[third_row], [example_row], [other_row]]"
        and st = "\<lparr>st_conn = \<lparr>weather_daily = [third_row, example_row, other_row], commits = 2\<rparr>,
           batch = [other_row], total_records = 3, stations_processed = 3\<rparr>"]
    by simp
  show ?thesis
    using d first single written again by simp
qed

end
